theory Spec2Isabelle
  imports Complex_Main
begin

section \<open>Numbers of the source language\<close>

text \<open>
  The program computes with the \<^verbatim>\<open>number\<close> type of TypeScript (IEEE-754 doubles).
  In this development a finite number is a \<^typ>\<open>real\<close>: arithmetic and the
  trigonometric functions are exact, so rounding errors of the machine are not part of
  the model. The arguments of the functions (latitude, longitude, fields of a
  \<^verbatim>\<open>Date\<close>) are finite numbers.

  A division, a tangent and an arc tangent can leave the finite numbers. Their results
  are values of \<open>jsnum\<close>: a finite number, one of the two infinities, or \<^verbatim>\<open>NaN\<close>.
  A division by zero is never the HOL value \<open>x / 0 = 0\<close>.
\<close>

datatype jsnum = Fin real | PosInf | NegInf | NaN

definition js_div :: "real \<Rightarrow> real \<Rightarrow> jsnum" where
  \<comment> \<open>\<^verbatim>\<open>a / b\<close> on finite numbers\<close>
  "js_div a b =
     (if b \<noteq> 0 then Fin (a / b)
      else if 0 < a then PosInf
      else if a < 0 then NegInf
      else NaN)"

definition js_abs_gt :: "jsnum \<Rightarrow> real \<Rightarrow> bool" where
  \<comment> \<open>\<^verbatim>\<open>Math.abs(q) > c\<close>; every comparison with \<^verbatim>\<open>NaN\<close> is false\<close>
  "js_abs_gt q c =
     (case q of Fin v \<Rightarrow> c < \<bar>v\<bar> | PosInf \<Rightarrow> True | NegInf \<Rightarrow> True | NaN \<Rightarrow> False)"

definition js_tan :: "real \<Rightarrow> jsnum" where
  \<comment> \<open>\<^verbatim>\<open>Math.tan(x)\<close>: infinite where the cosine vanishes\<close>
  "js_tan x = js_div (sin x) (cos x)"

definition js_plus :: "real \<Rightarrow> jsnum \<Rightarrow> jsnum" where
  \<comment> \<open>\<^verbatim>\<open>a + q\<close> with \<open>a\<close> finite\<close>
  "js_plus a q = (case q of Fin v \<Rightarrow> Fin (a + v) | PosInf \<Rightarrow> PosInf | NegInf \<Rightarrow> NegInf | NaN \<Rightarrow> NaN)"

definition js_recip :: "jsnum \<Rightarrow> jsnum" where
  \<comment> \<open>\<^verbatim>\<open>1 / q\<close>\<close>
  "js_recip q = (case q of Fin v \<Rightarrow> js_div 1 v | PosInf \<Rightarrow> Fin 0 | NegInf \<Rightarrow> Fin 0 | NaN \<Rightarrow> NaN)"

definition js_atan :: "jsnum \<Rightarrow> jsnum" where
  \<comment> \<open>\<^verbatim>\<open>Math.atan(q)\<close>\<close>
  "js_atan q =
     (case q of Fin v \<Rightarrow> Fin (arctan v) | PosInf \<Rightarrow> Fin (pi / 2) | NegInf \<Rightarrow> Fin (- pi / 2)
      | NaN \<Rightarrow> NaN)"

definition trunc :: "real \<Rightarrow> int" where
  \<comment> \<open>rounding toward zero\<close>
  "trunc x = (if 0 \<le> x then \<lfloor>x\<rfloor> else \<lceil>x\<rceil>)"

definition js_rem :: "real \<Rightarrow> real \<Rightarrow> real" where
  \<comment> \<open>\<^verbatim>\<open>x % y\<close> for finite \<open>x\<close> and \<open>y \<noteq> 0\<close>: the remainder has the sign of \<open>x\<close>\<close>
  "js_rem x y = x - y * of_int (trunc (x / y))"

definition js_round :: "real \<Rightarrow> int" where
  \<comment> \<open>\<^verbatim>\<open>Math.round(x)\<close>: the nearest integer, a half rounded up\<close>
  "js_round x = \<lfloor>x + 1 / 2\<rfloor>"

definition atan2 :: "real \<Rightarrow> real \<Rightarrow> real" where
  \<comment> \<open>\<^verbatim>\<open>Math.atan2(y, x)\<close> on finite numbers; \<^verbatim>\<open>atan2(0, 0)\<close> is \<open>0\<close>\<close>
  "atan2 y x =
     (if 0 < x then arctan (y / x)
      else if x < 0 then (if 0 \<le> y then arctan (y / x) + pi else arctan (y / x) - pi)
      else if 0 < y then pi / 2
      else if y < 0 then - pi / 2
      else 0)"


section \<open>Dates\<close>

text \<open>
  A valid \<^verbatim>\<open>Date\<close> object is the record of what its getters return in the local time
  zone: \<^verbatim>\<open>getMonth()\<close> counts from 0, \<^verbatim>\<open>getTimezoneOffset()\<close> is in minutes.
\<close>

record date =
  getFullYear :: int
  getMonth :: int
  getDate :: int
  getHours :: int
  getMinutes :: int
  getSeconds :: int
  getTimezoneOffset :: int


section \<open>Solar position\<close>

definition getJulianDate :: "date \<Rightarrow> real" where
  "getJulianDate d =
     (let year = real_of_int (getFullYear d);
          month = real_of_int (getMonth d) + 1;
          day = real_of_int (getDate d);
          a = real_of_int \<lfloor>(14 - month) / 12\<rfloor>;
          y = year - a;
          m = month + 12 * a - 3;
          jdn = day + real_of_int \<lfloor>(153 * m + 2) / 5\<rfloor> + 365 * y + real_of_int \<lfloor>y / 4\<rfloor>
                - real_of_int \<lfloor>y / 100\<rfloor> + real_of_int \<lfloor>y / 400\<rfloor> + 1721119;
          hours = real_of_int (getHours d);
          minutes = real_of_int (getMinutes d);
          seconds = real_of_int (getSeconds d);
          timeFraction = (hours + minutes / 60 + seconds / 3600) / 24
      in jdn + timeFraction - 0.5)"

definition meanLongitude :: "real \<Rightarrow> real" where
  \<comment> \<open>the local \<^verbatim>\<open>L\<close> of \<^verbatim>\<open>getSolarDeclination\<close> and \<^verbatim>\<open>getEquationOfTime\<close>\<close>
  "meanLongitude julianDate = (let n = julianDate - 2451545.0 in js_rem (280.460 + 0.9856474 * n) 360)"

definition meanAnomaly :: "real \<Rightarrow> real" where
  \<comment> \<open>the local \<^verbatim>\<open>g\<close>\<close>
  "meanAnomaly julianDate = (let n = julianDate - 2451545.0 in js_rem (357.528 + 0.9856003 * n) 360)"

definition eclipticLongitude :: "real \<Rightarrow> real" where
  \<comment> \<open>the local \<^verbatim>\<open>lambda\<close>\<close>
  "eclipticLongitude julianDate =
     (let L = meanLongitude julianDate; g = meanAnomaly julianDate
      in L + 1.915 * sin (g * pi / 180) + 0.020 * sin (2 * g * pi / 180))"

definition getSolarDeclination :: "real \<Rightarrow> real" where
  "getSolarDeclination julianDate =
     (let lambda = eclipticLongitude julianDate
      in arcsin (sin (23.439 * pi / 180) * sin (lambda * pi / 180)) * 180 / pi)"

definition getEquationOfTime :: "real \<Rightarrow> real" where
  "getEquationOfTime julianDate =
     (let L = meanLongitude julianDate;
          lambda = eclipticLongitude julianDate;
          alpha = atan2 (cos (23.439 * pi / 180) * sin (lambda * pi / 180)) (cos (lambda * pi / 180))
                  * 180 / pi
      in 4 * (L - alpha))"

definition getSolarNoon :: "real \<Rightarrow> real \<Rightarrow> real \<Rightarrow> real" where
  "getSolarNoon longitude equationOfTime timezoneOffset =
     12 - longitude / 15 - equationOfTime / 60 + timezoneOffset"


section \<open>Prayer moments\<close>

text \<open>
  A computed time is a finite number of hours or \<^verbatim>\<open>NaN\<close>, here \<open>None\<close>
  (it arises from \<open>0 / 0\<close> only).
\<close>

definition cosHourAngle :: "real \<Rightarrow> real \<Rightarrow> real \<Rightarrow> jsnum" where
  \<comment> \<open>the local \<^verbatim>\<open>cosHourAngle\<close> of \<^verbatim>\<open>calculatePrayerTime\<close> and \<^verbatim>\<open>getAsrTime\<close>, from radians\<close>
  "cosHourAngle latRad decRad angleRad =
     js_div (sin angleRad - sin latRad * sin decRad) (cos latRad * cos decRad)"

definition calculatePrayerTime ::
  "real \<Rightarrow> real \<Rightarrow> real \<Rightarrow> real \<Rightarrow> real \<Rightarrow> bool \<Rightarrow> real \<Rightarrow> real option" where
  "calculatePrayerTime lat lng declination equationOfTime angle isSunrise timezoneOffset =
     (let latRad = lat * pi / 180;
          decRad = declination * pi / 180;
          angleRad = angle * pi / 180;
          c = cosHourAngle latRad decRad angleRad
      in if js_abs_gt c 1
         then Some (if isSunrise then 6 + timezoneOffset else 18 + timezoneOffset)
         else (case c of
                 Fin v \<Rightarrow>
                   (let hourAngle = arccos v * 180 / pi / 15;
                        solarNoon = getSolarNoon lng equationOfTime timezoneOffset
                    in Some (if isSunrise then solarNoon - hourAngle else solarNoon + hourAngle))
               | _ \<Rightarrow> None))"

definition asrElevation :: "real \<Rightarrow> real \<Rightarrow> jsnum" where
  \<comment> \<open>the local \<^verbatim>\<open>asrElevation\<close> of \<^verbatim>\<open>getAsrTime\<close>, from radians\<close>
  "asrElevation latRad decRad =
     (let shadowFactor = 1;
          noonElevation = arcsin (sin latRad * sin decRad + cos latRad * cos decRad)
      in js_atan (js_recip (js_plus shadowFactor (js_tan (pi / 2 - noonElevation)))))"

definition getAsrTime :: "real \<Rightarrow> real \<Rightarrow> real \<Rightarrow> real \<Rightarrow> real \<Rightarrow> real option" where
  "getAsrTime lat lng declination equationOfTime timezoneOffset =
     (let latRad = lat * pi / 180;
          decRad = declination * pi / 180
      in case asrElevation latRad decRad of
           Fin asrElev \<Rightarrow>
             (let c = cosHourAngle latRad decRad asrElev
              in if js_abs_gt c 1 then Some (15 + timezoneOffset)
                 else (case c of
                         Fin v \<Rightarrow>
                           (let hourAngle = arccos v * 180 / pi / 15;
                                solarNoon = getSolarNoon lng equationOfTime timezoneOffset
                            in Some (solarNoon + hourAngle))
                       | _ \<Rightarrow> None))
         | _ \<Rightarrow> None)"

text \<open>
  The two loops of \<^verbatim>\<open>timeToHourMinute\<close>. On the reals each one ends: the number of
  remaining steps is the number of whole days between the time and the range.
\<close>

function raiseToDay :: "real \<Rightarrow> real" where
  \<comment> \<open>\<^verbatim>\<open>while (time < 0) time += 24\<close>\<close>
  "raiseToDay time = (if time < 0 then raiseToDay (time + 24) else time)"
  by pat_completeness auto
termination
proof (relation "measure (\<lambda>t. nat \<lceil>- (t / 24)\<rceil>)")
  show "wf (measure (\<lambda>t::real. nat \<lceil>- (t / 24)\<rceil>))"
    by (simp only: wf_measure)
next
  fix time :: real
  assume neg: "time < 0"
  have "- ((time + 24) / 24) = - (time / 24) - 1"
    by (simp add: field_simps)
  then have step: "\<lceil>- ((time + 24) / 24)\<rceil> = \<lceil>- (time / 24)\<rceil> - 1"
    by (simp only: ceiling_diff_one)
  from neg have "0 < - (time / 24)" by simp
  then have "0 < \<lceil>- (time / 24)\<rceil>" by linarith
  with step have "nat \<lceil>- ((time + 24) / 24)\<rceil> < nat \<lceil>- (time / 24)\<rceil>" by linarith
  then show "(time + 24, time) \<in> measure (\<lambda>t. nat \<lceil>- (t / 24)\<rceil>)"
    by (simp only: in_measure)
qed

function lowerToDay :: "real \<Rightarrow> real" where
  \<comment> \<open>\<^verbatim>\<open>while (time >= 24) time -= 24\<close>\<close>
  "lowerToDay time = (if 24 \<le> time then lowerToDay (time - 24) else time)"
  by pat_completeness auto
termination
proof (relation "measure (\<lambda>t. nat \<lfloor>t / 24\<rfloor>)")
  show "wf (measure (\<lambda>t::real. nat \<lfloor>t / 24\<rfloor>))"
    by (simp only: wf_measure)
next
  fix time :: real
  assume big: "24 \<le> time"
  have "(time - 24) / 24 = time / 24 - 1"
    by (simp add: field_simps)
  then have step: "\<lfloor>(time - 24) / 24\<rfloor> = \<lfloor>time / 24\<rfloor> - 1"
    by (simp only: floor_diff_one)
  from big have "1 \<le> time / 24" by simp
  then have "1 \<le> \<lfloor>time / 24\<rfloor>" by linarith
  with step have "nat \<lfloor>(time - 24) / 24\<rfloor> < nat \<lfloor>time / 24\<rfloor>" by linarith
  then show "(time - 24, time) \<in> measure (\<lambda>t. nat \<lfloor>t / 24\<rfloor>)"
    by (simp only: in_measure)
qed

declare raiseToDay.simps [simp del]
declare lowerToDay.simps [simp del]

definition timeToHourMinute :: "real option \<Rightarrow> int option \<times> int option" where
  \<comment> \<open>the object \<^verbatim>\<open>{hour, minute}\<close> as a pair; for \<^verbatim>\<open>NaN\<close> no loop runs, no test
      succeeds, and both fields are \<^verbatim>\<open>NaN\<close>\<close>
  "timeToHourMinute t =
     (case t of
        None \<Rightarrow> (None, None)
      | Some time0 \<Rightarrow>
          (let time = lowerToDay (raiseToDay time0);
               h = \<lfloor>time\<rfloor>;
               m = js_round ((time - real_of_int h) * 60)
           in if 60 \<le> m then (Some ((h + 1) mod 24), Some 0)
              else (Some h, Some (max 0 (min 59 m)))))"

record entry =
  id' :: string
  name :: string

record moment = entry +
  hour :: "int option"
  minute :: "int option"

definition withTime :: "string \<Rightarrow> string \<Rightarrow> real option \<Rightarrow> moment" where
  \<comment> \<open>\<^verbatim>\<open>{ id: i, name: n, ...timeToHourMinute(t) }\<close>\<close>
  "withTime i n t =
     (case timeToHourMinute t of (h, m) \<Rightarrow> \<lparr>id' = i, name = n, hour = h, minute = m\<rparr>)"

definition timezoneOffsetOf :: "date \<Rightarrow> real" where
  \<comment> \<open>the local \<^verbatim>\<open>timezoneOffset\<close> of \<^verbatim>\<open>getIslamicPrayerTimes\<close>\<close>
  "timezoneOffsetOf d = - real_of_int (getTimezoneOffset d) / 60"

definition fajrAngle :: real where "fajrAngle = - 18"
definition ishaAngle :: real where "ishaAngle = - 17"
definition maghribAngle :: real where "maghribAngle = - 0.833"

definition solarTimes :: "real \<Rightarrow> real \<Rightarrow> date \<Rightarrow> real option list" where
  \<comment> \<open>the locals \<^verbatim>\<open>fajrTime\<close>, \<^verbatim>\<open>sunriseTime\<close>, \<^verbatim>\<open>dhuhrTime\<close>, \<^verbatim>\<open>asrTime\<close>, \<^verbatim>\<open>maghribTime\<close> and
      \<^verbatim>\<open>ishaTime\<close> of \<^verbatim>\<open>getIslamicPrayerTimes\<close>, in this order\<close>
  "solarTimes lat lng d =
     (let timezoneOffset = timezoneOffsetOf d;
          julianDate = getJulianDate d;
          declination = getSolarDeclination julianDate;
          equationOfTime = getEquationOfTime julianDate
      in [calculatePrayerTime lat lng declination equationOfTime fajrAngle False timezoneOffset,
          calculatePrayerTime lat lng declination equationOfTime maghribAngle True timezoneOffset,
          Some (getSolarNoon lng equationOfTime timezoneOffset),
          getAsrTime lat lng declination equationOfTime timezoneOffset,
          calculatePrayerTime lat lng declination equationOfTime maghribAngle False timezoneOffset,
          calculatePrayerTime lat lng declination equationOfTime ishaAngle False timezoneOffset])"

definition getIslamicPrayerTimes :: "real \<Rightarrow> real \<Rightarrow> date \<Rightarrow> moment list" where
  "getIslamicPrayerTimes lat lng d =
     (let timezoneOffset = timezoneOffsetOf d;
          julianDate = getJulianDate d;
          declination = getSolarDeclination julianDate;
          equationOfTime = getEquationOfTime julianDate;
          fajrTime = calculatePrayerTime lat lng declination equationOfTime fajrAngle False timezoneOffset;
          sunriseTime = calculatePrayerTime lat lng declination equationOfTime maghribAngle True timezoneOffset;
          dhuhrTime = Some (getSolarNoon lng equationOfTime timezoneOffset);
          asrTime = getAsrTime lat lng declination equationOfTime timezoneOffset;
          maghribTime = calculatePrayerTime lat lng declination equationOfTime maghribAngle False timezoneOffset;
          ishaTime = calculatePrayerTime lat lng declination equationOfTime ishaAngle False timezoneOffset
      in [withTime ''fajr'' ''Fajr'' fajrTime,
          withTime ''sunrise'' ''Sunrise'' sunriseTime,
          withTime ''dhuhr'' ''Dhuhr'' dhuhrTime,
          withTime ''asr'' ''Asr'' asrTime,
          withTime ''maghrib'' ''Maghrib'' maghribTime,
          withTime ''isha'' ''Isha'' ishaTime])"


section \<open>Formatting and the next prayer\<close>

record PrayerTime = entry +
  time :: string
  isNext :: bool
  isPassed :: bool

definition minutesOfDay :: "int option \<Rightarrow> int option \<Rightarrow> int option" where
  \<comment> \<open>\<^verbatim>\<open>prayer.hour * 60 + prayer.minute\<close>\<close>
  "minutesOfDay h m = (case (h, m) of (Some h', Some m') \<Rightarrow> Some (h' * 60 + m') | _ \<Rightarrow> None)"

definition js_gt :: "int option \<Rightarrow> int \<Rightarrow> bool" where
  \<comment> \<open>\<^verbatim>\<open>a > b\<close>, false for \<^verbatim>\<open>NaN\<close>\<close>
  "js_gt a b = (case a of None \<Rightarrow> False | Some v \<Rightarrow> b < v)"

definition js_ge :: "int option \<Rightarrow> int \<Rightarrow> bool" where
  "js_ge a b = (case a of None \<Rightarrow> False | Some v \<Rightarrow> b \<le> v)"

definition js_le :: "int option \<Rightarrow> int \<Rightarrow> bool" where
  "js_le a b = (case a of None \<Rightarrow> False | Some v \<Rightarrow> v \<le> b)"

definition findIndex :: "('a \<Rightarrow> bool) \<Rightarrow> 'a list \<Rightarrow> int" where
  \<comment> \<open>\<^verbatim>\<open>xs.findIndex(P)\<close>: the first index whose element satisfies \<open>P\<close>, or \<open>-1\<close>\<close>
  "findIndex P xs =
     (if \<exists>x \<in> set xs. P x then int (length (takeWhile (\<lambda>x. \<not> P x) xs)) else - 1)"

definition digitChar :: "nat \<Rightarrow> char" where
  "digitChar n = char_of (48 + n)"

fun decimal :: "nat \<Rightarrow> string" where
  "decimal n = (if n < 10 then [digitChar n] else decimal (n div 10) @ [digitChar (n mod 10)])"

declare decimal.simps [simp del]

definition toString :: "int option \<Rightarrow> string" where
  \<comment> \<open>the text of an integral number in a template literal or \<^verbatim>\<open>toString()\<close>\<close>
  "toString v =
     (case v of
        None \<Rightarrow> ''NaN''
      | Some i \<Rightarrow> if i < 0 then CHR ''-'' # decimal (nat (- i)) else decimal (nat i))"

definition padStart :: "nat \<Rightarrow> char \<Rightarrow> string \<Rightarrow> string" where
  "padStart n c s = replicate (n - length s) c @ s"

definition formatTime :: "int option \<Rightarrow> int option \<Rightarrow> string" where
  \<comment> \<open>the locals \<^verbatim>\<open>hour12\<close>, \<^verbatim>\<open>ampm\<close> and \<^verbatim>\<open>formattedTime\<close>\<close>
  "formatTime h m =
     (let hour12 = (if h = Some 0 then Some 12
                    else if js_gt h 12 then map_option (\<lambda>v. v - 12) h
                    else h);
          ampm = (if js_ge h 12 then ''PM'' else ''AM'')
      in toString hour12 @ '':'' @ padStart 2 (CHR ''0'') (toString m) @ '' '' @ ampm)"

definition prayerMinutes :: "moment list \<Rightarrow> int option list" where
  \<comment> \<open>the local \<^verbatim>\<open>prayerMinutes\<close>\<close>
  "prayerMinutes times' = map (\<lambda>prayer. minutesOfDay (hour prayer) (minute prayer)) times'"

definition annotate :: "int \<Rightarrow> moment list \<Rightarrow> PrayerTime list" where
  \<comment> \<open>the statements that \<^verbatim>\<open>calculatePrayerTimes\<close> and \<^verbatim>\<open>getMockPrayerTimes\<close> share, word
      for word, after \<^verbatim>\<open>currentMinutes\<close> is set\<close>
  "annotate currentMinutes times' =
     (let found = findIndex (\<lambda>t. js_gt t currentMinutes) (prayerMinutes times');
          nextPrayerIndex = (if found = - 1 then 0 else found)
      in map (\<lambda>(index, prayer).
                (let prayerTimeMinutes = minutesOfDay (hour prayer) (minute prayer)
                 in \<lparr>id' = id' prayer, name = name prayer,
                     time = formatTime (hour prayer) (minute prayer),
                     isNext = (int index = nextPrayerIndex),
                     isPassed = js_le prayerTimeMinutes currentMinutes\<rparr>))
             (enumerate 0 times'))"

definition nextIndex :: "int \<Rightarrow> moment list \<Rightarrow> nat" where
  \<comment> \<open>the final value of the local \<^verbatim>\<open>nextPrayerIndex\<close>, as a natural number\<close>
  "nextIndex currentMinutes times' =
     (let found = findIndex (\<lambda>t. js_gt t currentMinutes) (prayerMinutes times')
      in nat (if found = - 1 then 0 else found))"

definition currentMinutesOf :: "date \<Rightarrow> int" where
  \<comment> \<open>\<^verbatim>\<open>now.getHours() * 60 + now.getMinutes()\<close>\<close>
  "currentMinutesOf now = getHours now * 60 + getMinutes now"

text \<open>
  \<^verbatim>\<open>calculatePrayerTimes\<close> and \<^verbatim>\<open>getMockPrayerTimes\<close> read the wall clock with
  \<^verbatim>\<open>new Date()\<close>. The clock is ambient state of the program, not an argument of the
  source functions; here it is the first argument, \<open>now\<close>. The only caller of
  \<^verbatim>\<open>calculatePrayerTimes\<close> passes the date, so its default value is the one of
  \<^verbatim>\<open>getPrayerTimes\<close>.
\<close>

definition calculatePrayerTimes :: "date \<Rightarrow> real \<Rightarrow> real \<Rightarrow> date \<Rightarrow> PrayerTime list" where
  "calculatePrayerTimes now lat lng d =
     (let times' = getIslamicPrayerTimes lat lng d;
          currentMinutes = currentMinutesOf now
      in annotate currentMinutes times')"

definition mockPrayers :: "moment list" where
  \<comment> \<open>the local \<^verbatim>\<open>prayers\<close> of \<^verbatim>\<open>getMockPrayerTimes\<close>\<close>
  "mockPrayers =
     [\<lparr>id' = ''fajr'', name = ''Fajr'', hour = Some 5, minute = Some 30\<rparr>,
      \<lparr>id' = ''sunrise'', name = ''Sunrise'', hour = Some 6, minute = Some 55\<rparr>,
      \<lparr>id' = ''dhuhr'', name = ''Dhuhr'', hour = Some 12, minute = Some 25\<rparr>,
      \<lparr>id' = ''asr'', name = ''Asr'', hour = Some 15, minute = Some 40\<rparr>,
      \<lparr>id' = ''maghrib'', name = ''Maghrib'', hour = Some 18, minute = Some 15\<rparr>,
      \<lparr>id' = ''isha'', name = ''Isha'', hour = Some 19, minute = Some 35\<rparr>]"

definition getMockPrayerTimes :: "date \<Rightarrow> PrayerTime list" where
  "getMockPrayerTimes now = annotate (currentMinutesOf now) mockPrayers"


section \<open>Reading a formatted time back\<close>

definition isDigit :: "char \<Rightarrow> bool" where
  \<comment> \<open>\<^verbatim>\<open>\d\<close>\<close>
  "isDigit c = (48 \<le> (of_char c :: nat) \<and> (of_char c :: nat) \<le> 57)"

definition isSpace :: "char \<Rightarrow> bool" where
  \<comment> \<open>\<^verbatim>\<open>\s\<close>, its one-byte characters\<close>
  "isSpace c = ((of_char c :: nat) \<in> {9, 10, 11, 12, 13, 32})"

definition toUpperCase :: "string \<Rightarrow> string" where
  "toUpperCase s =
     map (\<lambda>c. if 97 \<le> (of_char c :: nat) \<and> (of_char c :: nat) \<le> 122
               then char_of ((of_char c :: nat) - 32) else c) s"

definition matchPeriod :: "string \<Rightarrow> string \<Rightarrow> string \<Rightarrow> (string \<times> string \<times> string) option" where
  \<comment> \<open>the rest of the pattern after the minutes: \<^verbatim>\<open>\s*(AM|PM)$\<close>, letters of either case\<close>
  "matchPeriod hs ms rest =
     (let p = dropWhile isSpace rest
      in if toUpperCase p = ''AM'' \<or> toUpperCase p = ''PM'' then Some (hs, ms, p) else None)"

definition matchMinutes :: "string \<Rightarrow> string \<Rightarrow> (string \<times> string \<times> string) option" where
  \<comment> \<open>after the colon: \<^verbatim>\<open>(\d{2})\<close> and the rest\<close>
  "matchMinutes hs rest =
     (case rest of
        a # b # rest' \<Rightarrow> if isDigit a \<and> isDigit b then matchPeriod hs [a, b] rest' else None
      | _ \<Rightarrow> None)"

definition matchTime :: "string \<Rightarrow> (string \<times> string \<times> string) option" where
  \<comment> \<open>\<^verbatim>\<open>s.match(/^(\d{1,2}):(\d{2})\s*(AM|PM)$/i)\<close>: the three groups, or \<open>None\<close> for \<^verbatim>\<open>null\<close>\<close>
  "matchTime s =
     (case s of
        a # b # rest \<Rightarrow>
          if isDigit a \<and> b = CHR '':'' then matchMinutes [a] rest
          else (case rest of
                  c # rest' \<Rightarrow>
                    if isDigit a \<and> isDigit b \<and> c = CHR '':'' then matchMinutes [a, b] rest'
                    else None
                | [] \<Rightarrow> None)
      | _ \<Rightarrow> None)"

definition parseInt :: "string \<Rightarrow> int" where
  \<comment> \<open>\<^verbatim>\<open>parseInt(s, 10)\<close> on a string of digits\<close>
  "parseInt s = foldl (\<lambda>acc c. acc * 10 + (int (of_char c) - 48)) 0 s"

definition parseTime :: "string \<Rightarrow> (int \<times> int) option" where
  \<comment> \<open>\<^verbatim>\<open>getTimeUntilNextPrayer\<close>, from the match to the 24-hour \<^verbatim>\<open>hours\<close> and \<^verbatim>\<open>minutes\<close>;
      \<open>None\<close> where the source gives up with \<^verbatim>\<open>'Soon'\<close>\<close>
  "parseTime s =
     (case matchTime s of
        None \<Rightarrow> None
      | Some (g1, g2, g3) \<Rightarrow>
          (let hours = parseInt g1;
               minutes = parseInt g2;
               period = toUpperCase g3;
               hours' = (if period = ''PM'' \<and> hours \<noteq> 12 then hours + 12
                         else if period = ''AM'' \<and> hours = 12 then 0
                         else hours)
           in Some (hours', minutes)))"


section \<open>The public entry point\<close>

text \<open>
  \<^verbatim>\<open>getPrayerTimes\<close> awaits two calls of the platform's location service. Each call
  either returns or throws; what it does is given by the record \<open>platform\<close>, with the
  wall clock. A thrown value is an \<open>error\<close>, and the promise that the function returns
  is a sum: \<open>Inl\<close> a rejection, \<open>Inr\<close> the list it resolves to.
\<close>

datatype error = Error string

record coordinate =
  latitude :: real
  longitude :: real

record LocationData = coordinate +
  city :: "string option"
  country :: "string option"
  timezone :: "string option"

record platform =
  clock :: date
  requestForegroundPermissionsAsync :: "error + string"
  getCurrentPositionAsync :: "error + real \<times> real"

definition getPrayerTimesTry :: "platform \<Rightarrow> LocationData option \<Rightarrow> date \<Rightarrow> error + PrayerTime list" where
  \<comment> \<open>the \<^verbatim>\<open>try\<close> block\<close>
  "getPrayerTimesTry p location d =
     (case location of
        Some loc \<Rightarrow> Inr (calculatePrayerTimes (clock p) (latitude loc) (longitude loc) d)
      | None \<Rightarrow>
          (case requestForegroundPermissionsAsync p of
             Inl e \<Rightarrow> Inl e
           | Inr status \<Rightarrow>
               if status \<noteq> ''granted'' then Inl (Error ''Location permission denied'')
               else (case getCurrentPositionAsync p of
                       Inl e \<Rightarrow> Inl e
                     | Inr (lat, lng) \<Rightarrow> Inr (calculatePrayerTimes (clock p) lat lng d))))"

definition getPrayerTimes :: "platform \<Rightarrow> LocationData option \<Rightarrow> date option \<Rightarrow> error + PrayerTime list" where
  \<comment> \<open>an omitted \<^verbatim>\<open>date\<close> is \<^verbatim>\<open>new Date()\<close>; the \<^verbatim>\<open>catch\<close> block turns every error into
      the mock list\<close>
  "getPrayerTimes p location dateArg =
     (let d = (case dateArg of None \<Rightarrow> clock p | Some d' \<Rightarrow> d')
      in case getPrayerTimesTry p location d of
           Inl e \<Rightarrow> Inr (getMockPrayerTimes (clock p))
         | Inr prayers \<Rightarrow> Inr prayers)"


section \<open>Qibla direction\<close>

definition KAABA_LOCATION :: coordinate where
  "KAABA_LOCATION = \<lparr>latitude = 21.4225, longitude = 39.8262\<rparr>"

definition calculateQiblaDirection :: "real \<Rightarrow> real \<Rightarrow> real" where
  "calculateQiblaDirection userLat userLon =
     (let lat1 = userLat * (pi / 180);
          lon1 = userLon * (pi / 180);
          lat2 = latitude KAABA_LOCATION * (pi / 180);
          lon2 = longitude KAABA_LOCATION * (pi / 180);
          dLon = lon2 - lon1;
          y = sin dLon * cos lat2;
          x = cos lat1 * sin lat2 - sin lat1 * cos lat2 * cos dLon;
          bearing = atan2 y x * (180 / pi)
      in js_rem (bearing + 360) 360)"


section \<open>Two dates\<close>

text \<open>
  Noon of 1 January 2000 on a clock in UTC, and noon of 10 March 2000 on a clock one hour
  ahead of UTC.
\<close>

definition date_2000_01_01 :: date where
  "date_2000_01_01 = \<lparr>getFullYear = 2000, getMonth = 0, getDate = 1, getHours = 12, getMinutes = 0,
          getSeconds = 0, getTimezoneOffset = 0\<rparr>"

definition date_2000_03_10 :: date where
  "date_2000_03_10 = \<lparr>getFullYear = 2000, getMonth = 2, getDate = 10, getHours = 12, getMinutes = 0,
          getSeconds = 0, getTimezoneOffset = - 60\<rparr>"


section \<open>The Julian date in the words of the specification\<close>

text \<open>
  The specification gives the Julian date of a calendar date-time by a formula on
  integers, every \<open>floor\<close> of a quotient being an integer division that rounds down.
  Here \<open>month\<close> counts from 1.
\<close>

definition julianDateSpec :: "int \<Rightarrow> int \<Rightarrow> int \<Rightarrow> int \<Rightarrow> int \<Rightarrow> int \<Rightarrow> real" where
  "julianDateSpec year month day hours minutes seconds =
     (let a = (14 - month) div 12;
          y = year - a;
          m = month + 12 * a - 3
      in real_of_int (day + (153 * m + 2) div 5 + 365 * y + y div 4 - y div 100 + y div 400 + 1721119)
         + (real_of_int hours + real_of_int minutes / 60 + real_of_int seconds / 3600) / 24 - 0.5)"


section \<open>Properties of the number layer\<close>

lemma floor_quotient_numeral: "\<lfloor>real_of_int a / numeral k\<rfloor> = a div numeral k"
  using floor_divide_of_int_eq [of a "numeral k"] by simp

lemma atan2_range: "- pi < atan2 y x \<and> atan2 y x \<le> pi"
proof -
  have lo: "- (pi / 2) < arctan (y / x)" and hi: "arctan (y / x) < pi / 2"
    by (rule arctan_lbound, rule arctan_ubound)
  have p: "0 < pi" by (rule pi_gt_zero)
  consider "0 < x" | "x < 0" "0 \<le> y" | "x < 0" "y < 0" | "x = 0" by linarith
  then show ?thesis
  proof cases
    case 1
    then have "atan2 y x = arctan (y / x)" by (simp add: atan2_def)
    with lo hi p show ?thesis by linarith
  next
    case 2
    then have "y / x \<le> 0" by (simp add: divide_nonneg_neg)
    then have le: "arctan (y / x) \<le> 0" using arctan_monotone' [of "y / x" 0] by simp
    from 2 have "atan2 y x = arctan (y / x) + pi" by (simp add: atan2_def)
    with lo le p show ?thesis by linarith
  next
    case 3
    then have "0 < y / x" by (simp add: divide_neg_neg)
    then have gt: "0 < arctan (y / x)" using arctan_monotone [of 0 "y / x"] by simp
    from 3 have "atan2 y x = arctan (y / x) - pi" by (simp add: atan2_def)
    with hi gt p show ?thesis by linarith
  next
    case 4
    then have "atan2 y x = pi / 2 \<or> atan2 y x = - pi / 2 \<or> atan2 y x = 0"
      by (simp add: atan2_def)
    with p show ?thesis by linarith
  qed
qed

lemma js_rem_360_range:
  assumes "0 \<le> v"
  shows "0 \<le> js_rem v 360 \<and> js_rem v 360 < 360"
proof -
  from assms have nn: "0 \<le> v / 360" by simp
  then have t: "trunc (v / 360) = \<lfloor>v / 360\<rfloor>" by (simp add: trunc_def)
  have "real_of_int \<lfloor>v / 360\<rfloor> \<le> v / 360" by (rule of_int_floor_le)
  moreover have "v / 360 < real_of_int \<lfloor>v / 360\<rfloor> + 1" by linarith
  ultimately show ?thesis unfolding js_rem_def t by (simp add: field_simps)
qed


section \<open>The Julian date\<close>

text \<open>
  Claim C6. For every date-time, \<^verbatim>\<open>getJulianDate\<close> returns exactly the value of the
  specification's formula: with \<open>a = floor((14 - month) / 12)\<close>, \<open>y = year - a\<close> and
  \<open>m = month + 12a - 3\<close>, the day number
  \<open>day + floor((153m + 2) / 5) + 365y + floor(y / 4) - floor(y / 100) + floor(y / 400) + 1721119\<close>,
  plus the fraction of the day, minus one half. The function is total: no date is
  rejected, leap years included.
\<close>

theorem getJulianDate_formula:
  "getJulianDate d =
     julianDateSpec (getFullYear d) (getMonth d + 1) (getDate d) (getHours d) (getMinutes d) (getSeconds d)"
proof -
  define month where "month = getMonth d + 1"
  define a where "a = (14 - month) div 12"
  define y where "y = getFullYear d - a"
  define m where "m = month + 12 * a - 3"
  have a_eq: "\<lfloor>(14 - (real_of_int (getMonth d) + 1)) / 12\<rfloor> = a"
    using floor_quotient_numeral [of "14 - month"] by (simp add: a_def month_def)
  have m_eq: "\<lfloor>(153 * (real_of_int (getMonth d) + 1 + 12 * real_of_int a - 3) + 2) / 5\<rfloor> = (153 * m + 2) div 5"
    using floor_quotient_numeral [of "153 * m + 2"] by (simp add: m_def month_def algebra_simps)
  have y4: "\<lfloor>(real_of_int (getFullYear d) - real_of_int a) / 4\<rfloor> = y div 4"
    using floor_quotient_numeral [of y] by (simp add: y_def)
  have y100: "\<lfloor>(real_of_int (getFullYear d) - real_of_int a) / 100\<rfloor> = y div 100"
    using floor_quotient_numeral [of y] by (simp add: y_def)
  have y400: "\<lfloor>(real_of_int (getFullYear d) - real_of_int a) / 400\<rfloor> = y div 400"
    using floor_quotient_numeral [of y] by (simp add: y_def)
  show ?thesis
    unfolding getJulianDate_def julianDateSpec_def Let_def a_eq m_eq y4 y100 y400
    by (simp add: a_def y_def m_def month_def)
qed


section \<open>The Qibla bearing\<close>

text \<open>
  Claim C7. For every observer, \<^verbatim>\<open>calculateQiblaDirection\<close> is the initial great-circle
  bearing towards the Kaaba, \<open>atan2 (sin \<Delta>lon * cos lat2) (cos lat1 * sin lat2 -
  sin lat1 * cos lat2 * cos \<Delta>lon)\<close>, in degrees, plus 360, modulo 360; and it lies in
  the half-open interval from 0 to 360. This holds for every latitude and longitude, so
  in particular for latitudes from -90 to 90 and longitudes from -180 to 180.
\<close>

theorem calculateQiblaDirection_range:
  "calculateQiblaDirection userLat userLon =
     js_rem (atan2 (sin (longitude KAABA_LOCATION * (pi / 180) - userLon * (pi / 180))
                     * cos (latitude KAABA_LOCATION * (pi / 180)))
                   (cos (userLat * (pi / 180)) * sin (latitude KAABA_LOCATION * (pi / 180))
                    - sin (userLat * (pi / 180)) * cos (latitude KAABA_LOCATION * (pi / 180))
                      * cos (longitude KAABA_LOCATION * (pi / 180) - userLon * (pi / 180)))
             * (180 / pi) + 360) 360
   \<and> latitude KAABA_LOCATION = 21.4225 \<and> longitude KAABA_LOCATION = 39.8262
   \<and> 0 \<le> calculateQiblaDirection userLat userLon
   \<and> calculateQiblaDirection userLat userLon < 360"
proof -
  let ?b = "atan2 (sin (longitude KAABA_LOCATION * (pi / 180) - userLon * (pi / 180))
                     * cos (latitude KAABA_LOCATION * (pi / 180)))
                   (cos (userLat * (pi / 180)) * sin (latitude KAABA_LOCATION * (pi / 180))
                    - sin (userLat * (pi / 180)) * cos (latitude KAABA_LOCATION * (pi / 180))
                      * cos (longitude KAABA_LOCATION * (pi / 180) - userLon * (pi / 180)))"
  have eq: "calculateQiblaDirection userLat userLon = js_rem (?b * (180 / pi) + 360) 360"
    by (simp add: calculateQiblaDirection_def Let_def)
  have "- pi < ?b" using atan2_range by blast
  then have "- pi * (180 / pi) < ?b * (180 / pi)"
    by (intro mult_strict_right_mono) simp_all
  then have "0 \<le> ?b * (180 / pi) + 360" by simp
  from js_rem_360_range [OF this] eq show ?thesis by (simp add: KAABA_LOCATION_def)
qed

text \<open>
  Claim C10. For an observer at the Kaaba itself (latitude 21.4225, longitude 39.8262)
  the bearing is 0: both arguments of \<open>atan2\<close> are 0, \<open>atan2 0 0\<close> is 0, and the
  normalisation keeps 0.
\<close>

theorem calculateQiblaDirection_at_kaaba:
  "calculateQiblaDirection 21.4225 39.8262 = 0
   \<and> sin (longitude KAABA_LOCATION * (pi / 180) - 39.8262 * (pi / 180))
       * cos (latitude KAABA_LOCATION * (pi / 180)) = 0
   \<and> cos (21.4225 * (pi / 180)) * sin (latitude KAABA_LOCATION * (pi / 180))
       - sin (21.4225 * (pi / 180)) * cos (latitude KAABA_LOCATION * (pi / 180))
         * cos (longitude KAABA_LOCATION * (pi / 180) - 39.8262 * (pi / 180)) = 0
   \<and> atan2 0 0 = 0
   \<and> js_rem (0 + 360) 360 = 0"
  by (simp add: calculateQiblaDirection_def KAABA_LOCATION_def Let_def atan2_def js_rem_def trunc_def)


section \<open>Formatting a time and reading it back\<close>

lemma of_char_digitChar: "n < 10 \<Longrightarrow> (of_char (digitChar n) :: nat) = 48 + n"
  by (simp add: digitChar_def)

lemma isDigit_digitChar: "n < 10 \<Longrightarrow> isDigit (digitChar n)"
  by (simp add: isDigit_def of_char_digitChar)

lemma digitChar_not_colon: "n < 10 \<Longrightarrow> digitChar n \<noteq> CHR '':''"
proof
  assume "n < 10" and "digitChar n = CHR '':''"
  then have "(of_char (digitChar n) :: nat) = of_char (CHR '':'')" by simp
  with \<open>n < 10\<close> show False by (simp add: of_char_digitChar)
qed

lemma char_of_48: "char_of (48::nat) = CHR ''0''"
  by code_simp

lemma decimal_one_digit: "n < 10 \<Longrightarrow> decimal n = [digitChar n]"
  by (simp add: decimal.simps [of n])

lemma decimal_two_digits:
  assumes "10 \<le> n" and "n < 100"
  shows "decimal n = [digitChar (n div 10), digitChar (n mod 10)]"
proof -
  from assms have "n div 10 < 10" by simp
  then have "decimal (n div 10) = [digitChar (n div 10)]" by (rule decimal_one_digit)
  with assms show ?thesis by (simp add: decimal.simps [of n])
qed

lemma parseInt_one: "n < 10 \<Longrightarrow> parseInt [digitChar n] = int n"
  by (simp add: parseInt_def of_char_digitChar)

lemma parseInt_two: "a < 10 \<Longrightarrow> b < 10 \<Longrightarrow> parseInt [digitChar a, digitChar b] = int (10 * a + b)"
  by (simp add: parseInt_def of_char_digitChar)

lemma matchPeriod_AM: "matchPeriod hs ms '' AM'' = Some (hs, ms, ''AM'')"
  by (simp add: matchPeriod_def isSpace_def toUpperCase_def)

lemma matchPeriod_PM: "matchPeriod hs ms '' PM'' = Some (hs, ms, ''PM'')"
  by (simp add: matchPeriod_def isSpace_def toUpperCase_def)

lemma toUpperCase_AM: "toUpperCase ''AM'' = ''AM''" and toUpperCase_PM: "toUpperCase ''PM'' = ''PM''"
  by (simp_all add: toUpperCase_def)

lemma matchTime_one:
  assumes "a < 10" "m1 < 10" "m2 < 10"
  shows "matchTime (digitChar a # CHR '':'' # digitChar m1 # digitChar m2 # rest)
         = matchPeriod [digitChar a] [digitChar m1, digitChar m2] rest"
  using assms by (simp add: matchTime_def matchMinutes_def isDigit_digitChar)

lemma matchTime_two:
  assumes "a < 10" "b < 10" "m1 < 10" "m2 < 10"
  shows "matchTime (digitChar a # digitChar b # CHR '':'' # digitChar m1 # digitChar m2 # rest)
         = matchPeriod [digitChar a, digitChar b] [digitChar m1, digitChar m2] rest"
  using assms by (simp add: matchTime_def matchMinutes_def isDigit_digitChar digitChar_not_colon)

lemma minute_text:
  assumes "m < 60"
  shows "padStart 2 (CHR ''0'') (decimal m) = [digitChar (m div 10), digitChar (m mod 10)]"
proof (cases "m < 10")
  case True
  then show ?thesis by (simp add: padStart_def decimal_one_digit digitChar_def char_of_48)
next
  case False
  with assms show ?thesis by (simp add: padStart_def decimal_two_digits)
qed

lemma parse_back:
  assumes h12: "1 \<le> k" "k \<le> 12" and m: "m < 60" and p: "p = ''AM'' \<or> p = ''PM''"
  shows "parseTime (decimal k @ '':'' @ [digitChar (m div 10), digitChar (m mod 10)] @ '' '' @ p)
         = Some (if p = ''PM'' \<and> k \<noteq> 12 then int k + 12 else if p = ''AM'' \<and> k = 12 then 0 else int k, int m)"
proof -
  from m have d: "m div 10 < 10" "m mod 10 < 10" by simp_all
  have mm: "int (10 * (m div 10) + m mod 10) = int m" by simp
  show ?thesis
  proof (cases "k < 10")
    case True
    then have dk: "decimal k = [digitChar k]" by (rule decimal_one_digit)
    from p show ?thesis
    proof
      assume "p = ''AM''"
      then show ?thesis
        using True h12 d
        by (simp add: dk parseTime_def matchTime_one matchPeriod_AM toUpperCase_AM parseInt_one parseInt_two mm del: of_nat_add of_nat_mult)
    next
      assume "p = ''PM''"
      then show ?thesis
        using True h12 d
        by (simp add: dk parseTime_def matchTime_one matchPeriod_PM toUpperCase_PM parseInt_one parseInt_two mm del: of_nat_add of_nat_mult)
    qed
  next
    case False
    with h12 have k: "10 \<le> k" "k < 100" "k div 10 < 10" "k mod 10 < 10" by simp_all
    then have dk: "decimal k = [digitChar (k div 10), digitChar (k mod 10)]" by (simp add: decimal_two_digits)
    have kk: "int (10 * (k div 10) + k mod 10) = int k" by simp
    from p show ?thesis
    proof
      assume "p = ''AM''"
      then show ?thesis
        using k d
        by (simp add: dk parseTime_def matchTime_two matchPeriod_AM toUpperCase_AM parseInt_two mm kk del: of_nat_add of_nat_mult)
    next
      assume "p = ''PM''"
      then show ?thesis
        using k d
        by (simp add: dk parseTime_def matchTime_two matchPeriod_PM toUpperCase_PM parseInt_two mm kk del: of_nat_add of_nat_mult)
    qed
  qed
qed

lemma formatTime_text:
  assumes "0 \<le> h" "h \<le> 23" "0 \<le> m" "m \<le> 59"
  shows "formatTime (Some h) (Some m) =
           decimal (nat (if h = 0 then 12 else if 12 < h then h - 12 else h)) @ '':''
           @ [digitChar (nat m div 10), digitChar (nat m mod 10)] @ '' ''
           @ (if 12 \<le> h then ''PM'' else ''AM'')"
proof -
  from assms have "nat m < 60" by simp
  then have mt: "padStart 2 (CHR ''0'') (decimal (nat m)) = [digitChar (nat m div 10), digitChar (nat m mod 10)]"
    by (rule minute_text)
  from assms show ?thesis
    by (simp add: formatTime_def Let_def js_gt_def js_ge_def toString_def mt)
qed

text \<open>
  Claim C8. For every hour from 0 to 23 and minute from 0 to 59, the formatted text is
  the hour of the 12-hour clock (12 for hour 0, the hour minus 12 for hours 13 to 23), a
  colon, the minute in two digits, a space, and \<open>AM\<close> or \<open>PM\<close>; and reading this text
  back with the rules of \<^verbatim>\<open>getTimeUntilNextPrayer\<close> (\<open>PM\<close> and an hour other than 12
  adds 12, \<open>AM\<close> and hour 12 gives 0) returns the hour and the minute.
\<close>

theorem format_parse_roundtrip:
  assumes "0 \<le> h" "h \<le> 23" "0 \<le> m" "m \<le> 59"
  shows "formatTime (Some h) (Some m) =
           decimal (nat (if h = 0 then 12 else if 12 < h then h - 12 else h)) @ '':''
           @ [digitChar (nat m div 10), digitChar (nat m mod 10)] @ '' ''
           @ (if 12 \<le> h then ''PM'' else ''AM'')
         \<and> parseTime (formatTime (Some h) (Some m)) = Some (h, m)"
proof -
  define k where "k = nat (if h = 0 then 12 else if 12 < h then h - 12 else h)"
  define p where "p = (if 12 \<le> h then ''PM'' else ''AM'')"
  from assms have k: "1 \<le> k" "k \<le> 12" by (auto simp: k_def)
  from assms have m: "nat m < 60" by simp
  have p: "p = ''AM'' \<or> p = ''PM''" by (simp add: p_def)
  have shape: "formatTime (Some h) (Some m) =
      decimal k @ '':'' @ [digitChar (nat m div 10), digitChar (nat m mod 10)] @ '' '' @ p"
    using formatTime_text [OF assms] by (simp add: k_def p_def)
  then have "parseTime (formatTime (Some h) (Some m)) =
      Some (if p = ''PM'' \<and> k \<noteq> 12 then int k + 12 else if p = ''AM'' \<and> k = 12 then 0 else int k, int (nat m))"
    using parse_back [OF k m p] by simp
  also have "\<dots> = Some (h, m)"
    using assms by (auto simp: k_def p_def)
  finally have rt: "parseTime (formatTime (Some h) (Some m)) = Some (h, m)" .
  from formatTime_text [OF assms] rt show ?thesis by (rule conjI)
qed

theorem format_parse_roundtrip_witness:
  "formatTime (Some 13) (Some 5) = ''1:05 PM'' \<and> parseTime ''1:05 PM'' = Some (13, 5)
   \<and> formatTime (Some 0) (Some 0) = ''12:00 AM'' \<and> parseTime ''12:00 AM'' = Some (0, 0)"
proof -
  have a: "formatTime (Some 13) (Some 5) = ''1:05 PM''" by code_simp
  have b: "formatTime (Some 0) (Some 0) = ''12:00 AM''" by code_simp
  have h: "(0::int) \<le> 13" "(13::int) \<le> 23" "(0::int) \<le> 5" "(5::int) \<le> 59" by simp_all
  have z: "(0::int) \<le> 0" "(0::int) \<le> 23" "(0::int) \<le> 59" by simp_all
  note r1 = format_parse_roundtrip [OF h, THEN conjunct2, unfolded a]
  note r2 = format_parse_roundtrip [OF z(1) z(2) z(1) z(3), THEN conjunct2, unfolded b]
  from a b r1 r2 show ?thesis by (intro conjI)
qed


section \<open>The flags of the prayer list\<close>

lemma findIndex_found:
  assumes "\<exists>x \<in> set xs. P x"
  shows "0 \<le> findIndex P xs" and "nat (findIndex P xs) < length xs"
    and "P (xs ! nat (findIndex P xs))"
    and "\<And>j. j < nat (findIndex P xs) \<Longrightarrow> \<not> P (xs ! j)"
proof -
  let ?n = "length (takeWhile (\<lambda>x. \<not> P x) xs)"
  from assms have fi: "findIndex P xs = int ?n" by (simp add: findIndex_def)
  show "0 \<le> findIndex P xs" by (simp add: fi)
  from assms have lt: "?n < length xs"
    by (induction xs) auto
  then show "nat (findIndex P xs) < length xs" by (simp add: fi)
  from lt have "\<not> (\<not> P (xs ! ?n))" by (rule nth_length_takeWhile)
  then show "P (xs ! nat (findIndex P xs))" by (simp add: fi)
  fix j assume "j < nat (findIndex P xs)"
  then have "j < ?n" by (simp add: fi)
  then have "takeWhile (\<lambda>x. \<not> P x) xs ! j = xs ! j"
    and "takeWhile (\<lambda>x. \<not> P x) xs ! j \<in> set (takeWhile (\<lambda>x. \<not> P x) xs)"
    by (simp add: takeWhile_nth, rule nth_mem)
  then show "\<not> P (xs ! j)" by (metis set_takeWhileD)
qed

lemma findIndex_none: "\<not> (\<exists>x \<in> set xs. P x) \<Longrightarrow> findIndex P xs = - 1"
  by (simp add: findIndex_def)

lemma nth_prayerMinutes:
  "j < length ts \<Longrightarrow> prayerMinutes ts ! j = minutesOfDay (hour (ts ! j)) (minute (ts ! j))"
  by (simp add: prayerMinutes_def)

lemma length_prayerMinutes: "length (prayerMinutes ts) = length ts"
  by (simp add: prayerMinutes_def)

lemma bex_set_nth: "(\<exists>x \<in> set xs. P x) = (\<exists>j < length xs. P (xs ! j))"
proof
  assume "\<exists>x \<in> set xs. P x"
  then obtain y where y: "y \<in> set xs" "P y" by blast
  then obtain j where "j < length xs" "xs ! j = y" by (auto simp: in_set_conv_nth)
  with y show "\<exists>j < length xs. P (xs ! j)" by blast
next
  assume "\<exists>j < length xs. P (xs ! j)"
  then obtain j where j: "j < length xs" "P (xs ! j)" by blast
  then have "xs ! j \<in> set xs" by simp
  with j show "\<exists>x \<in> set xs. P x" by blast
qed

lemma nextIndex_found:
  assumes ex: "\<exists>j < length ts. js_gt (prayerMinutes ts ! j) cur"
  shows "nextIndex cur ts < length ts"
    and "js_gt (prayerMinutes ts ! nextIndex cur ts) cur"
    and "\<And>j. j < nextIndex cur ts \<Longrightarrow> \<not> js_gt (prayerMinutes ts ! j) cur"
proof -
  let ?P = "\<lambda>t. js_gt t cur"
  from ex have e: "\<exists>x \<in> set (prayerMinutes ts). ?P x"
    unfolding bex_set_nth length_prayerMinutes .
  note f = findIndex_found [OF e]
  from f(1) have n: "nextIndex cur ts = nat (findIndex ?P (prayerMinutes ts))"
    by (simp add: nextIndex_def Let_def)
  from f(2) show "nextIndex cur ts < length ts" by (simp add: n length_prayerMinutes)
  from f(3) show "js_gt (prayerMinutes ts ! nextIndex cur ts) cur" by (simp add: n)
  fix j assume "j < nextIndex cur ts"
  then show "\<not> js_gt (prayerMinutes ts ! j) cur" using f(4) [of j] by (simp add: n)
qed

lemma nextIndex_none:
  assumes no: "\<not> (\<exists>j < length ts. js_gt (prayerMinutes ts ! j) cur)"
  shows "nextIndex cur ts = 0"
proof -
  from no have "\<not> (\<exists>x \<in> set (prayerMinutes ts). js_gt x cur)"
    unfolding bex_set_nth length_prayerMinutes .
  then have "findIndex (\<lambda>t. js_gt t cur) (prayerMinutes ts) = - 1" by (rule findIndex_none)
  then show ?thesis by (simp add: nextIndex_def)
qed

lemma nextIndex_lt:
  assumes "ts \<noteq> []"
  shows "nextIndex cur ts < length ts"
proof (cases "\<exists>j < length ts. js_gt (prayerMinutes ts ! j) cur")
  case True
  then show ?thesis by (rule nextIndex_found(1))
next
  case False
  then have "nextIndex cur ts = 0" by (rule nextIndex_none)
  with assms show ?thesis by simp
qed

lemma length_annotate: "length (annotate cur ts) = length ts"
  by (simp add: annotate_def Let_def)

lemma nth_annotate:
  assumes "i < length ts"
  shows "annotate cur ts ! i =
           \<lparr>id' = id' (ts ! i), name = name (ts ! i),
            time = formatTime (hour (ts ! i)) (minute (ts ! i)),
            isNext = (i = nextIndex cur ts),
            isPassed = js_le (prayerMinutes ts ! i) cur\<rparr>"
proof -
  let ?f = "findIndex (\<lambda>t. js_gt t cur) (prayerMinutes ts)"
  have "?f = - 1 \<or> 0 \<le> ?f"
    using findIndex_found(1) [of "prayerMinutes ts" "\<lambda>t. js_gt t cur"]
      findIndex_none [of "prayerMinutes ts" "\<lambda>t. js_gt t cur"]
    by blast
  then have idx: "(int i = (if ?f = - 1 then 0 else ?f)) = (i = nextIndex cur ts)"
    by (auto simp: nextIndex_def Let_def)
  from assms have e: "enumerate 0 ts ! i = (i, ts ! i)" by (simp add: nth_enumerate_eq)
  from assms have "annotate cur ts ! i =
           \<lparr>id' = id' (ts ! i), name = name (ts ! i),
            time = formatTime (hour (ts ! i)) (minute (ts ! i)),
            isNext = (int i = (if ?f = - 1 then 0 else ?f)),
            isPassed = js_le (minutesOfDay (hour (ts ! i)) (minute (ts ! i))) cur\<rparr>"
    by (simp add: annotate_def Let_def e)
  with idx assms show ?thesis by (simp add: nth_prayerMinutes)
qed

lemma js_gt_not_le: "js_gt a b \<Longrightarrow> \<not> js_le a b"
  by (cases a) (simp_all add: js_gt_def js_le_def)

lemma length_getIslamicPrayerTimes: "length (getIslamicPrayerTimes lat lng d) = 6"
  by (simp add: getIslamicPrayerTimes_def Let_def)

lemma annotate_flags:
  fixes ts :: "moment list" and cur :: int
  assumes ne: "ts \<noteq> []"
  shows "length (annotate cur ts) = length ts"
    and "\<forall>i < length ts. isPassed (annotate cur ts ! i) = js_le (prayerMinutes ts ! i) cur"
    and "\<exists>!i. i < length ts \<and> isNext (annotate cur ts ! i)"
    and "\<forall>i < length ts. isNext (annotate cur ts ! i) =
           (if \<exists>j < length ts. js_gt (prayerMinutes ts ! j) cur
            then js_gt (prayerMinutes ts ! i) cur \<and> (\<forall>j < i. \<not> js_gt (prayerMinutes ts ! j) cur)
            else i = 0)"
    and "(\<forall>i < length ts. isPassed (annotate cur ts ! i)) \<longrightarrow> isNext (annotate cur ts ! 0)"
    and "\<forall>i < length ts. isNext (annotate cur ts ! i) \<and> isPassed (annotate cur ts ! i) \<longrightarrow>
           i = 0 \<and> (\<forall>j < length ts. \<not> js_gt (prayerMinutes ts ! j) cur)"
proof -
  let ?out = "annotate cur ts"
  let ?pm = "prayerMinutes ts"
  let ?ex = "\<exists>j < length ts. js_gt (?pm ! j) cur"
  show "length ?out = length ts" by (rule length_annotate)
  have passed: "\<And>i. i < length ts \<Longrightarrow> isPassed (?out ! i) = js_le (?pm ! i) cur"
    by (simp add: nth_annotate)
  then show "\<forall>i < length ts. isPassed (?out ! i) = js_le (?pm ! i) cur" by blast
  have nxt: "\<And>i. i < length ts \<Longrightarrow> isNext (?out ! i) = (i = nextIndex cur ts)"
    by (simp add: nth_annotate)
  from ne have lt: "nextIndex cur ts < length ts" by (rule nextIndex_lt)
  show "\<exists>!i. i < length ts \<and> isNext (?out ! i)"
  proof (rule ex1I [of _ "nextIndex cur ts"])
    from lt nxt [OF lt] show "nextIndex cur ts < length ts \<and> isNext (?out ! nextIndex cur ts)"
      by simp
  next
    fix i assume "i < length ts \<and> isNext (?out ! i)"
    with nxt [of i] show "i = nextIndex cur ts" by blast
  qed
  show "\<forall>i < length ts. isNext (?out ! i) =
           (if ?ex then js_gt (?pm ! i) cur \<and> (\<forall>j < i. \<not> js_gt (?pm ! j) cur) else i = 0)"
  proof (intro allI impI)
    fix i assume i: "i < length ts"
    show "isNext (?out ! i) =
           (if ?ex then js_gt (?pm ! i) cur \<and> (\<forall>j < i. \<not> js_gt (?pm ! j) cur) else i = 0)"
    proof (cases ?ex)
      case True
      note h = nextIndex_found(2) [OF True] and l = nextIndex_found(3) [OF True]
      have "(i = nextIndex cur ts) = (js_gt (?pm ! i) cur \<and> (\<forall>j < i. \<not> js_gt (?pm ! j) cur))"
      proof
        assume "i = nextIndex cur ts"
        with h l show "js_gt (?pm ! i) cur \<and> (\<forall>j < i. \<not> js_gt (?pm ! j) cur)" by blast
      next
        assume a: "js_gt (?pm ! i) cur \<and> (\<forall>j < i. \<not> js_gt (?pm ! j) cur)"
        show "i = nextIndex cur ts"
        proof (rule ccontr)
          assume "i \<noteq> nextIndex cur ts"
          then consider "i < nextIndex cur ts" | "nextIndex cur ts < i" by linarith
          then show False
          proof cases
            case 1
            from l [OF 1] a show False by blast
          next
            case 2
            with a h show False by blast
          qed
        qed
      qed
      with nxt [OF i] have "isNext (?out ! i) = (js_gt (?pm ! i) cur \<and> (\<forall>j < i. \<not> js_gt (?pm ! j) cur))"
        by (rule trans)
      with True show ?thesis by (simp only: if_True)
    next
      case False
      then have "nextIndex cur ts = 0" by (rule nextIndex_none)
      with nxt [OF i] have "isNext (?out ! i) = (i = 0)" by simp
      with False show ?thesis by (simp only: if_False)
    qed
  qed
  show "(\<forall>i < length ts. isPassed (?out ! i)) \<longrightarrow> isNext (?out ! 0)"
  proof
    assume all: "\<forall>i < length ts. isPassed (?out ! i)"
    have no: "\<not> ?ex"
    proof
      assume ?ex
      then obtain j where j: "j < length ts" "js_gt (?pm ! j) cur" by blast
      from all j(1) have "isPassed (?out ! j)" by blast
      with passed [OF j(1)] have "js_le (?pm ! j) cur" by simp
      with js_gt_not_le [OF j(2)] show False by blast
    qed
    then have z: "nextIndex cur ts = 0" by (rule nextIndex_none)
    from ne have "0 < length ts" by simp
    from nxt [OF this] z show "isNext (?out ! 0)" by simp
  qed
  show "\<forall>i < length ts. isNext (?out ! i) \<and> isPassed (?out ! i) \<longrightarrow>
           i = 0 \<and> (\<forall>j < length ts. \<not> js_gt (?pm ! j) cur)"
  proof (intro allI impI)
    fix i assume i: "i < length ts" and b: "isNext (?out ! i) \<and> isPassed (?out ! i)"
    from b passed [OF i] have le: "js_le (?pm ! i) cur" by simp
    from b nxt [OF i] have eq: "i = nextIndex cur ts" by simp
    have no: "\<not> ?ex"
    proof
      assume ?ex
      from nextIndex_found(2) [OF this] eq have "js_gt (?pm ! i) cur" by simp
      from js_gt_not_le [OF this] le show False by blast
    qed
    then have "nextIndex cur ts = 0" by (rule nextIndex_none)
    with eq no show "i = 0 \<and> (\<forall>j < length ts. \<not> js_gt (?pm ! j) cur)" by blast
  qed
qed

text \<open>
  Claim C5. In the list that \<^verbatim>\<open>calculatePrayerTimes\<close> returns, for the clock \<open>now\<close>
  it read: every entry has \<open>isPassed\<close> exactly when its minutes since midnight are at
  most those of \<open>now\<close>; exactly one entry has \<open>isNext\<close>, the first one whose minutes
  exceed those of \<open>now\<close>, or entry 0 when there is none, which is the case when every
  entry has passed; and an entry with both flags can only be entry 0 in that last case.
\<close>

theorem calculatePrayerTimes_flags:
  "(let out = calculatePrayerTimes now lat lng d;
        cur = currentMinutesOf now;
        pm = prayerMinutes (getIslamicPrayerTimes lat lng d)
    in length out = 6
       \<and> (\<forall>i < 6. isPassed (out ! i) = js_le (pm ! i) cur)
       \<and> (\<exists>!i. i < 6 \<and> isNext (out ! i))
       \<and> (\<forall>i < 6. isNext (out ! i) =
             (if \<exists>j < 6. js_gt (pm ! j) cur
              then js_gt (pm ! i) cur \<and> (\<forall>j < i. \<not> js_gt (pm ! j) cur)
              else i = 0))
       \<and> ((\<forall>i < 6. isPassed (out ! i)) \<longrightarrow> isNext (out ! 0))
       \<and> (\<forall>i < 6. isNext (out ! i) \<and> isPassed (out ! i) \<longrightarrow>
             i = 0 \<and> (\<forall>j < 6. \<not> js_gt (pm ! j) cur)))"
proof -
  let ?ts = "getIslamicPrayerTimes lat lng d"
  have len: "length ?ts = 6" by (rule length_getIslamicPrayerTimes)
  then have ne: "?ts \<noteq> []" by auto
  have out: "calculatePrayerTimes now lat lng d = annotate (currentMinutesOf now) ?ts"
    by (simp add: calculatePrayerTimes_def Let_def)
  note f = annotate_flags [OF ne, of "currentMinutesOf now", unfolded len]
  show ?thesis
    unfolding Let_def out
    using f(1) f(2) f(3) f(4) f(5) f(6) by (intro conjI)
qed

theorem calculatePrayerTimes_flags_witness:
  "(let now = \<lparr>getFullYear = 2024, getMonth = 5, getDate = 21, getHours = 13, getMinutes = 0,
               getSeconds = 0, getTimezoneOffset = 0\<rparr>;
        d = \<lparr>getFullYear = 2024, getMonth = 5, getDate = 21, getHours = 12, getMinutes = 0,
             getSeconds = 0, getTimezoneOffset = 0\<rparr>;
        out = calculatePrayerTimes now 0 0 d;
        pm = prayerMinutes (getIslamicPrayerTimes 0 0 d)
    in currentMinutesOf now = 780
       \<and> length out = 6
       \<and> isPassed (out ! 2) = js_le (pm ! 2) 780
       \<and> (\<exists>!i. i < 6 \<and> isNext (out ! i)))"
proof -
  let ?now = "\<lparr>getFullYear = 2024, getMonth = 5, getDate = 21, getHours = 13, getMinutes = 0,
               getSeconds = 0, getTimezoneOffset = 0\<rparr>"
  let ?d = "\<lparr>getFullYear = 2024, getMonth = 5, getDate = 21, getHours = 12, getMinutes = 0,
             getSeconds = 0, getTimezoneOffset = 0\<rparr>"
  have cur: "currentMinutesOf ?now = 780" by (simp add: currentMinutesOf_def)
  note f = calculatePrayerTimes_flags [of ?now 0 0 ?d, unfolded Let_def cur]
  from f have a: "length (calculatePrayerTimes ?now 0 0 ?d) = 6" by (rule conjunct1)
  from f have "\<forall>i < 6. isPassed (calculatePrayerTimes ?now 0 0 ?d ! i)
                 = js_le (prayerMinutes (getIslamicPrayerTimes 0 0 ?d) ! i) 780"
    by (rule conjunct2 [THEN conjunct1])
  then have b: "isPassed (calculatePrayerTimes ?now 0 0 ?d ! 2)
                 = js_le (prayerMinutes (getIslamicPrayerTimes 0 0 ?d) ! 2) 780"
    by simp
  from f have c: "\<exists>!i. i < 6 \<and> isNext (calculatePrayerTimes ?now 0 0 ?d ! i)"
    by (rule conjunct2 [THEN conjunct2, THEN conjunct1])
  from cur a b c show ?thesis unfolding Let_def by (intro conjI)
qed



section \<open>Errors inside the public entry point\<close>

lemma mock_times:
  "map (\<lambda>x. (id' x, name x, time x)) (getMockPrayerTimes now) =
     [(''fajr'', ''Fajr'', ''5:30 AM''), (''sunrise'', ''Sunrise'', ''6:55 AM''),
      (''dhuhr'', ''Dhuhr'', ''12:25 PM''), (''asr'', ''Asr'', ''3:40 PM''),
      (''maghrib'', ''Maghrib'', ''6:15 PM''), (''isha'', ''Isha'', ''7:35 PM'')]"
proof -
  have "formatTime (Some 5) (Some 30) = ''5:30 AM''" by code_simp
  moreover have "formatTime (Some 6) (Some 55) = ''6:55 AM''" by code_simp
  moreover have "formatTime (Some 12) (Some 25) = ''12:25 PM''" by code_simp
  moreover have "formatTime (Some 15) (Some 40) = ''3:40 PM''" by code_simp
  moreover have "formatTime (Some 18) (Some 15) = ''6:15 PM''" by code_simp
  moreover have "formatTime (Some 19) (Some 35) = ''7:35 PM''" by code_simp
  ultimately show ?thesis
    by (simp add: getMockPrayerTimes_def annotate_def mockPrayers_def Let_def)
qed

lemma mock_passed:
  "map isPassed (getMockPrayerTimes now) =
     map (\<lambda>m. m \<le> currentMinutesOf now) [330, 415, 745, 940, 1095, 1175]"
  by (simp add: getMockPrayerTimes_def annotate_def mockPrayers_def Let_def minutesOfDay_def js_le_def)

lemma mock_next:
  "map isNext (getMockPrayerTimes now) =
     (let cur = currentMinutesOf now
      in [cur < 330 \<or> 1175 \<le> cur, 330 \<le> cur \<and> cur < 415, 415 \<le> cur \<and> cur < 745,
          745 \<le> cur \<and> cur < 940, 940 \<le> cur \<and> cur < 1095, 1095 \<le> cur \<and> cur < 1175])"
  by (auto simp add: getMockPrayerTimes_def annotate_def prayerMinutes_def mockPrayers_def Let_def minutesOfDay_def js_gt_def findIndex_def)

lemma length_calculatePrayerTimes: "length (calculatePrayerTimes now lat lng d) = 6"
  by (simp add: calculatePrayerTimes_def Let_def length_annotate length_getIslamicPrayerTimes)

lemma length_getMockPrayerTimes: "length (getMockPrayerTimes now) = 6"
  by (simp add: getMockPrayerTimes_def length_annotate mockPrayers_def)

text \<open>
  Claim C9. If a step of \<^verbatim>\<open>getPrayerTimes\<close> throws (the permission is not granted, the
  permission request fails, the position cannot be obtained) the promise is not
  rejected: it resolves to the fixed mock list (Fajr 5:30, Sunrise 6:55, Dhuhr 12:25,
  Asr 15:40, Maghrib 18:15, Isha 19:35) with its flags set against the clock. The
  result has six entries in every case.
\<close>

theorem getPrayerTimes_masks_errors:
  "(getPrayerTimesTry p location (case dateArg of None \<Rightarrow> clock p | Some d' \<Rightarrow> d') = Inl e
      \<longrightarrow> getPrayerTimes p location dateArg = Inr (getMockPrayerTimes (clock p)))
   \<and> (location = None \<and> requestForegroundPermissionsAsync p = Inr status \<and> status \<noteq> ''granted''
      \<longrightarrow> getPrayerTimes p location dateArg = Inr (getMockPrayerTimes (clock p)))
   \<and> (location = None \<and> requestForegroundPermissionsAsync p = Inl e
      \<longrightarrow> getPrayerTimes p location dateArg = Inr (getMockPrayerTimes (clock p)))
   \<and> (location = None \<and> requestForegroundPermissionsAsync p = Inr ''granted''
        \<and> getCurrentPositionAsync p = Inl e
      \<longrightarrow> getPrayerTimes p location dateArg = Inr (getMockPrayerTimes (clock p)))
   \<and> (\<exists>ts. getPrayerTimes p location dateArg = Inr ts \<and> length ts = 6)
   \<and> map (\<lambda>x. (id' x, name x, time x)) (getMockPrayerTimes (clock p)) =
       [(''fajr'', ''Fajr'', ''5:30 AM''), (''sunrise'', ''Sunrise'', ''6:55 AM''),
        (''dhuhr'', ''Dhuhr'', ''12:25 PM''), (''asr'', ''Asr'', ''3:40 PM''),
        (''maghrib'', ''Maghrib'', ''6:15 PM''), (''isha'', ''Isha'', ''7:35 PM'')]
   \<and> map isPassed (getMockPrayerTimes (clock p)) =
       map (\<lambda>m. m \<le> currentMinutesOf (clock p)) [330, 415, 745, 940, 1095, 1175]
   \<and> map isNext (getMockPrayerTimes (clock p)) =
       (let cur = currentMinutesOf (clock p)
        in [cur < 330 \<or> 1175 \<le> cur, 330 \<le> cur \<and> cur < 415, 415 \<le> cur \<and> cur < 745,
            745 \<le> cur \<and> cur < 940, 940 \<le> cur \<and> cur < 1095, 1095 \<le> cur \<and> cur < 1175])"
proof -
  have caught: "getPrayerTimesTry p location (case dateArg of None \<Rightarrow> clock p | Some d' \<Rightarrow> d') = Inl e
      \<longrightarrow> getPrayerTimes p location dateArg = Inr (getMockPrayerTimes (clock p))"
    by (simp add: getPrayerTimes_def Let_def)
  have denied: "location = None \<and> requestForegroundPermissionsAsync p = Inr status \<and> status \<noteq> ''granted''
      \<longrightarrow> getPrayerTimes p location dateArg = Inr (getMockPrayerTimes (clock p))"
    by (simp add: getPrayerTimes_def getPrayerTimesTry_def Let_def)
  have request: "location = None \<and> requestForegroundPermissionsAsync p = Inl e
      \<longrightarrow> getPrayerTimes p location dateArg = Inr (getMockPrayerTimes (clock p))"
    by (simp add: getPrayerTimes_def getPrayerTimesTry_def Let_def)
  have position: "location = None \<and> requestForegroundPermissionsAsync p = Inr ''granted''
        \<and> getCurrentPositionAsync p = Inl e
      \<longrightarrow> getPrayerTimes p location dateArg = Inr (getMockPrayerTimes (clock p))"
    by (simp add: getPrayerTimes_def getPrayerTimesTry_def Let_def)
  have six: "\<exists>ts. getPrayerTimes p location dateArg = Inr ts \<and> length ts = 6"
    by (auto simp: getPrayerTimes_def getPrayerTimesTry_def Let_def
        length_calculatePrayerTimes length_getMockPrayerTimes
        split: sum.splits option.splits prod.splits)
  from caught denied request position six mock_times [of "clock p"] mock_passed [of "clock p"]
    mock_next [of "clock p"]
  show ?thesis by (intro conjI)
qed

theorem getPrayerTimes_masks_errors_witness:
  "getPrayerTimes
     \<lparr>clock = \<lparr>getFullYear = 2024, getMonth = 5, getDate = 21, getHours = 13, getMinutes = 0,
               getSeconds = 0, getTimezoneOffset = 0\<rparr>,
      requestForegroundPermissionsAsync = Inr ''denied'',
      getCurrentPositionAsync = Inr (0, 0)\<rparr> None None
   = Inr [\<lparr>id' = ''fajr'', name = ''Fajr'', time = ''5:30 AM'', isNext = False, isPassed = True\<rparr>,
          \<lparr>id' = ''sunrise'', name = ''Sunrise'', time = ''6:55 AM'', isNext = False, isPassed = True\<rparr>,
          \<lparr>id' = ''dhuhr'', name = ''Dhuhr'', time = ''12:25 PM'', isNext = False, isPassed = True\<rparr>,
          \<lparr>id' = ''asr'', name = ''Asr'', time = ''3:40 PM'', isNext = True, isPassed = False\<rparr>,
          \<lparr>id' = ''maghrib'', name = ''Maghrib'', time = ''6:15 PM'', isNext = False, isPassed = False\<rparr>,
          \<lparr>id' = ''isha'', name = ''Isha'', time = ''7:35 PM'', isNext = False, isPassed = False\<rparr>]"
proof -
  let ?now = "\<lparr>getFullYear = 2024, getMonth = 5, getDate = 21, getHours = 13, getMinutes = 0,
               getSeconds = 0, getTimezoneOffset = 0\<rparr>"
  let ?p = "\<lparr>clock = ?now, requestForegroundPermissionsAsync = Inr ''denied'',
             getCurrentPositionAsync = Inr (0, 0)\<rparr>"
  have "getPrayerTimes ?p None None = Inr (getMockPrayerTimes (clock ?p))"
    using getPrayerTimes_masks_errors [of ?p None None undefined "''denied''"] by simp
  moreover have "getMockPrayerTimes ?now =
         [\<lparr>id' = ''fajr'', name = ''Fajr'', time = ''5:30 AM'', isNext = False, isPassed = True\<rparr>,
          \<lparr>id' = ''sunrise'', name = ''Sunrise'', time = ''6:55 AM'', isNext = False, isPassed = True\<rparr>,
          \<lparr>id' = ''dhuhr'', name = ''Dhuhr'', time = ''12:25 PM'', isNext = False, isPassed = True\<rparr>,
          \<lparr>id' = ''asr'', name = ''Asr'', time = ''3:40 PM'', isNext = True, isPassed = False\<rparr>,
          \<lparr>id' = ''maghrib'', name = ''Maghrib'', time = ''6:15 PM'', isNext = False, isPassed = False\<rparr>,
          \<lparr>id' = ''isha'', name = ''Isha'', time = ''7:35 PM'', isNext = False, isPassed = False\<rparr>]"
    by code_simp
  ultimately show ?thesis by simp
qed


section \<open>Angles in degrees\<close>

lemma deg_le: "a \<le> b \<Longrightarrow> a * pi / 180 \<le> b * pi / 180"
  by (simp add: mult_right_mono)

lemma deg_less: "a < b \<Longrightarrow> a * pi / 180 < b * pi / 180"
  by simp

lemma deg_90: "90 * pi / 180 = pi / 2" and deg_m90: "- 90 * pi / 180 = - (pi / 2)"
  and deg_180: "180 * pi / 180 = pi" and deg_0: "0 * pi / 180 = (0::real)"
  by simp_all

lemma sin_deg_mono:
  assumes "- 90 \<le> a" "a \<le> b" "b \<le> 90"
  shows "sin (a * pi / 180) \<le> sin (b * pi / 180)"
proof (rule sin_monotone_2pi_le)
  from deg_le [OF assms(1)] show "- (pi / 2) \<le> a * pi / 180" by simp
  from deg_le [OF assms(2)] show "a * pi / 180 \<le> b * pi / 180" .
  from deg_le [OF assms(3)] show "b * pi / 180 \<le> pi / 2" by simp
qed

lemma sin_deg_strict:
  assumes "- 90 \<le> a" "a < b" "b \<le> 90"
  shows "sin (a * pi / 180) < sin (b * pi / 180)"
proof (rule sin_monotone_2pi)
  from deg_le [OF assms(1)] show "- (pi / 2) \<le> a * pi / 180" by simp
  from deg_less [OF assms(2)] show "a * pi / 180 < b * pi / 180" .
  from deg_le [OF assms(3)] show "b * pi / 180 \<le> pi / 2" by simp
qed

lemma cos_deg_anti:
  assumes "0 \<le> a" "a \<le> b" "b \<le> 180"
  shows "cos (b * pi / 180) \<le> cos (a * pi / 180)"
proof (rule cos_monotone_0_pi_le)
  from deg_le [OF assms(1)] show "0 \<le> a * pi / 180" by simp
  from deg_le [OF assms(2)] show "a * pi / 180 \<le> b * pi / 180" .
  from deg_le [OF assms(3)] show "b * pi / 180 \<le> pi" by simp
qed

lemma cos_deg_strict:
  assumes "0 \<le> a" "a < b" "b \<le> 180"
  shows "cos (b * pi / 180) < cos (a * pi / 180)"
proof (rule cos_monotone_0_pi)
  from deg_le [OF assms(1)] show "0 \<le> a * pi / 180" by simp
  from deg_less [OF assms(2)] show "a * pi / 180 < b * pi / 180" .
  from deg_le [OF assms(3)] show "b * pi / 180 \<le> pi" by simp
qed

lemma sin_deg_co: "sin (x * pi / 180) = cos ((90 - x) * pi / 180)"
proof -
  have e: "(90 - x) * pi / 180 = pi / 2 - x * pi / 180" by (simp add: field_simps)
  show ?thesis unfolding e cos_diff by simp
qed

lemma cos_deg_co: "cos (x * pi / 180) = sin ((90 - x) * pi / 180)"
proof -
  have e: "(90 - x) * pi / 180 = pi / 2 - x * pi / 180" by (simp add: field_simps)
  show ?thesis unfolding e sin_diff by simp
qed

lemma sin_deg_270: "sin (x * pi / 180) = - cos ((x - 270) * pi / 180)"
proof -
  have e: "x * pi / 180 = (x - 270) * pi / 180 + 3 / 2 * pi" by (simp add: field_simps)
  have "sin ((x - 270) * pi / 180 + 3 / 2 * pi) = - cos ((x - 270) * pi / 180)"
    unfolding sin_add cos_3over2_pi sin_3over2_pi by simp
  with e show ?thesis by (simp only:)
qed

lemma cos_deg_270: "cos (x * pi / 180) = sin ((x - 270) * pi / 180)"
proof -
  have e: "x * pi / 180 = (x - 270) * pi / 180 + 3 / 2 * pi" by (simp add: field_simps)
  have "cos ((x - 270) * pi / 180 + 3 / 2 * pi) = sin ((x - 270) * pi / 180)"
    unfolding cos_add cos_3over2_pi sin_3over2_pi by simp
  with e show ?thesis by (simp only:)
qed

lemma sin_deg_360: "sin (x * pi / 180) = - sin ((360 - x) * pi / 180)"
proof -
  have e: "(360 - x) * pi / 180 = 2 * pi - x * pi / 180" by (simp add: field_simps)
  show ?thesis unfolding e sin_diff by simp
qed

lemma cos_deg_360: "cos (x * pi / 180) = cos ((360 - x) * pi / 180)"
proof -
  have e: "(360 - x) * pi / 180 = 2 * pi - x * pi / 180" by (simp add: field_simps)
  show ?thesis unfolding e cos_diff by simp
qed

lemma sin_deg_30: "sin (30 * pi / 180) = 1 / 2"
proof -
  have "30 * pi / 180 = pi / 6" by simp
  then show ?thesis by (simp only: sin_30)
qed

lemma sin_deg_nonneg: "0 \<le> x \<Longrightarrow> x \<le> 180 \<Longrightarrow> 0 \<le> sin (x * pi / 180)"
proof (rule sin_ge_zero)
  assume a: "0 \<le> x" and b: "x \<le> 180"
  from deg_le [OF a] show "0 \<le> x * pi / 180" by simp
  from deg_le [OF b] show "x * pi / 180 \<le> pi" by simp
qed

lemma cos_deg_pos: "- 90 < x \<Longrightarrow> x < 90 \<Longrightarrow> 0 < cos (x * pi / 180)"
proof (rule cos_gt_zero_pi)
  assume a: "- 90 < x" and b: "x < 90"
  from deg_less [OF a] show "- (pi / 2) < x * pi / 180" by simp
  from deg_less [OF b] show "x * pi / 180 < pi / 2" by simp
qed

section \<open>The sun on two dates\<close>

lemma jd_d0: "getJulianDate date_2000_01_01 = 2451545"
  by (simp add: getJulianDate_def date_2000_01_01_def Let_def)

lemma jd_d1: "getJulianDate date_2000_03_10 = 2451614"
  by (simp add: getJulianDate_def date_2000_03_10_def Let_def)

lemma L_d0: "meanLongitude 2451545 = 280.46"
  by (simp add: meanLongitude_def js_rem_def trunc_def Let_def)

lemma g_d0: "meanAnomaly 2451545 = 357.528"
  by (simp add: meanAnomaly_def js_rem_def trunc_def Let_def)

lemma L_d1: "meanLongitude 2451614 = 348.4696706"
  by (simp add: meanLongitude_def js_rem_def trunc_def Let_def)

lemma g_d1: "meanAnomaly 2451614 = 65.5344207"
  by (simp add: meanAnomaly_def js_rem_def trunc_def Let_def)

lemma lambda_near_L:
  "meanLongitude jd - 1.935 \<le> eclipticLongitude jd \<and> eclipticLongitude jd \<le> meanLongitude jd + 1.935"
proof -
  define s1 where "s1 = sin (meanAnomaly jd * pi / 180)"
  define s2 where "s2 = sin (2 * meanAnomaly jd * pi / 180)"
  have a: "- 1 \<le> s1" "s1 \<le> 1" and b: "- 1 \<le> s2" "s2 \<le> 1"
    by (simp_all add: s1_def s2_def)
  have "eclipticLongitude jd = meanLongitude jd + 1.915 * s1 + 0.020 * s2"
    unfolding eclipticLongitude_def Let_def s1_def s2_def ..
  with a b show ?thesis by simp
qed

lemma deg_le_iff: "(a * pi / 180 \<le> b * pi / 180) = (a \<le> b)"
  by simp

lemma deg_less_iff: "(a * pi / 180 < b * pi / 180) = (a < b)"
  by simp

lemma decRad_eq:
  "getSolarDeclination jd * pi / 180
     = arcsin (sin (23.439 * pi / 180) * sin (eclipticLongitude jd * pi / 180))"
  by (simp add: getSolarDeclination_def Let_def)

lemma sin_eps_bounds: "0 \<le> sin (23.439 * pi / 180)" "sin (23.439 * pi / 180) \<le> 1 / 2"
proof -
  show "0 \<le> sin (23.439 * pi / 180)" by (rule sin_deg_nonneg) simp_all
  have "sin (23.439 * pi / 180) \<le> sin (30 * pi / 180)" by (rule sin_deg_mono) simp_all
  then show "sin (23.439 * pi / 180) \<le> 1 / 2" by (simp only: sin_deg_30)
qed

lemma arcsin_sin_deg: "- 90 \<le> a \<Longrightarrow> a \<le> 90 \<Longrightarrow> arcsin (sin (a * pi / 180)) = a * pi / 180"
proof (rule arcsin_sin)
  assume a: "- 90 \<le> a" and b: "a \<le> 90"
  from deg_le [OF a] show "- (pi / 2) \<le> a * pi / 180" by simp
  from deg_le [OF b] show "a * pi / 180 \<le> pi / 2" by simp
qed

lemma sin_deg_minus: "sin (- a * pi / 180) = - sin (a * pi / 180)"
  by simp

lemma declination_range:
  "- 23.439 \<le> getSolarDeclination jd \<and> getSolarDeclination jd \<le> 23.439"
proof -
  let ?e = "sin (23.439 * pi / 180)"
  let ?l = "sin (eclipticLongitude jd * pi / 180)"
  have l: "- 1 \<le> ?l" "?l \<le> 1" by simp_all
  from sin_eps_bounds(1) l have up: "?e * ?l \<le> ?e"
    by (simp add: mult_left_le)
  from sin_eps_bounds(1) l have "?e * (- 1) \<le> ?e * ?l"
    by (intro mult_left_mono) simp_all
  then have lo: "- ?e \<le> ?e * ?l" by simp
  from sin_eps_bounds have e1: "?e \<le> 1" by simp
  have "arcsin (?e * ?l) \<le> arcsin ?e"
    using lo up e1 sin_eps_bounds(1) by (intro arcsin_le_arcsin) linarith+
  also have "arcsin ?e = 23.439 * pi / 180" by (rule arcsin_sin_deg) simp_all
  finally have a: "getSolarDeclination jd * pi / 180 \<le> 23.439 * pi / 180"
    by (simp only: decRad_eq)
  have "arcsin (- ?e) \<le> arcsin (?e * ?l)"
    using lo up e1 sin_eps_bounds(1) by (intro arcsin_le_arcsin) linarith+
  moreover have "arcsin (- ?e) = - 23.439 * pi / 180"
  proof -
    have "- ?e = sin (- 23.439 * pi / 180)" by simp
    then have "arcsin (- ?e) = arcsin (sin (- 23.439 * pi / 180))" by (simp only:)
    also have "\<dots> = - 23.439 * pi / 180" by (rule arcsin_sin_deg) simp_all
    finally show ?thesis .
  qed
  ultimately have b: "- 23.439 * pi / 180 \<le> getSolarDeclination jd * pi / 180"
    by (simp only: decRad_eq)
  from a b show ?thesis by (simp only: deg_le_iff)
qed

lemma sin_cos_deg:
  "sin (a * pi / 180) * cos (b * pi / 180) = (sin ((a + b) * pi / 180) + sin ((a - b) * pi / 180)) / 2"
proof -
  have p: "(a + b) * pi / 180 = a * pi / 180 + b * pi / 180"
    and m: "(a - b) * pi / 180 = a * pi / 180 - b * pi / 180"
    by (simp_all add: field_simps)
  show ?thesis unfolding p m by (rule sin_times_cos)
qed

lemma cos_cos_deg:
  "cos (a * pi / 180) * cos (b * pi / 180) = (cos ((a - b) * pi / 180) + cos ((a + b) * pi / 180)) / 2"
proof -
  have p: "(a + b) * pi / 180 = a * pi / 180 + b * pi / 180"
    and m: "(a - b) * pi / 180 = a * pi / 180 - b * pi / 180"
    by (simp_all add: field_simps)
  show ?thesis unfolding p m by (rule cos_times_cos)
qed

lemma avg_ge: "c \<le> a \<Longrightarrow> c \<le> b \<Longrightarrow> c \<le> (a + b) / (2::real)"
  by simp

lemma avg_le: "a \<le> c \<Longrightarrow> b \<le> c \<Longrightarrow> (a + b) / (2::real) \<le> c"
  by simp

lemma lambda_d0:
  "278.525 \<le> eclipticLongitude 2451545 \<and> eclipticLongitude 2451545 \<le> 282.395"
  using lambda_near_L [of 2451545] by (simp add: L_d0)

lemma declination_d0: "getSolarDeclination 2451545 \<le> - 11"
proof -
  define x where "x = eclipticLongitude 2451545 - 270"
  from lambda_d0 have x: "8.525 \<le> x" "x \<le> 12.395" by (simp_all add: x_def)
  let ?e = "sin (23.439 * pi / 180)"
  have sl: "sin (eclipticLongitude 2451545 * pi / 180) = - cos (x * pi / 180)"
    unfolding x_def by (rule sin_deg_270)
  have prod: "?e * cos (x * pi / 180)
      = (sin ((23.439 + x) * pi / 180) + sin ((23.439 - x) * pi / 180)) / 2"
    by (rule sin_cos_deg)
  have "sin (11 * pi / 180) \<le> sin ((23.439 + x) * pi / 180)"
    using x by (intro sin_deg_mono) simp_all
  moreover have "sin (11 * pi / 180) \<le> sin ((23.439 - x) * pi / 180)"
    using x by (intro sin_deg_mono) simp_all
  ultimately have ge: "sin (11 * pi / 180) \<le> ?e * cos (x * pi / 180)"
    unfolding prod by (rule avg_ge)
  have s: "?e * sin (eclipticLongitude 2451545 * pi / 180) = - (?e * cos (x * pi / 180))"
    by (simp add: sl)
  have le: "?e * sin (eclipticLongitude 2451545 * pi / 180) \<le> sin (- 11 * pi / 180)"
    unfolding s sin_deg_minus using ge by simp
  have lo: "- 1 \<le> ?e * sin (eclipticLongitude 2451545 * pi / 180)"
  proof -
    have "\<bar>?e * sin (eclipticLongitude 2451545 * pi / 180)\<bar> \<le> 1 * 1"
      unfolding abs_mult by (intro mult_mono) simp_all
    then show ?thesis by simp
  qed
  have "arcsin (?e * sin (eclipticLongitude 2451545 * pi / 180)) \<le> arcsin (sin (- 11 * pi / 180))"
    using lo le by (intro arcsin_le_arcsin) simp_all
  also have "\<dots> = - 11 * pi / 180" by (rule arcsin_sin_deg) simp_all
  finally have "getSolarDeclination 2451545 * pi / 180 \<le> - 11 * pi / 180"
    by (simp only: decRad_eq)
  then show ?thesis by (simp only: deg_le_iff)
qed

section \<open>Whether the sun reaches an altitude\<close>

lemma cosHourAngle_Fin:
  "cos lr * cos dr \<noteq> 0 \<Longrightarrow>
     cosHourAngle lr dr ang = Fin ((sin ang - sin lr * sin dr) / (cos lr * cos dr))"
  by (simp add: cosHourAngle_def js_div_def)

lemma hour_angle_defined:
  fixes lr dr ang :: real
  assumes den: "0 < cos lr * cos dr"
    and up: "sin ang \<le> cos (lr - dr)"
    and lo: "- cos (lr + dr) \<le> sin ang"
  shows "\<bar>(sin ang - sin lr * sin dr) / (cos lr * cos dr)\<bar> \<le> 1"
proof -
  let ?n = "sin ang - sin lr * sin dr" and ?d = "cos lr * cos dr"
  have "?n \<le> ?d" using up [unfolded cos_diff] by linarith
  moreover have "- ?d \<le> ?n" using lo [unfolded cos_add] by linarith
  ultimately have "\<bar>?n\<bar> \<le> ?d" by linarith
  with den show ?thesis by simp
qed

lemma hour_angle_undefined:
  fixes lr dr ang :: real
  assumes den: "0 < cos lr * cos dr"
    and lo: "sin ang < - cos (lr + dr)"
  shows "(sin ang - sin lr * sin dr) / (cos lr * cos dr) < - 1"
proof -
  let ?n = "sin ang - sin lr * sin dr" and ?d = "cos lr * cos dr"
  have "?n < - ?d" using lo [unfolded cos_add] by linarith
  with den show ?thesis by (simp add: field_simps)
qed

lemma below_minus_one: "v < - 1 \<Longrightarrow> 1 < \<bar>v :: real\<bar>"
  by linarith

lemma js_abs_gt_Fin: "js_abs_gt (Fin v) c = (c < \<bar>v\<bar>)"
  by (simp add: js_abs_gt_def)

lemma pos_nz: "0 < (x::real) \<Longrightarrow> x \<noteq> 0"
  by simp

lemma den_pos:
  assumes "- 90 < lat" "lat < 90" "- 90 < D" "D < 90"
  shows "0 < cos (lat * pi / 180) * cos (D * pi / 180)"
  using assms by (intro mult_pos_pos cos_deg_pos)

lemma deg_diff: "lat * pi / 180 - D * pi / 180 = (lat - D) * pi / 180"
  and deg_sum: "lat * pi / 180 + D * pi / 180 = (lat + D) * pi / 180"
  by (simp_all add: field_simps)

text \<open>
  The sun reaches the altitude \<open>a\<close> (in degrees) when \<open>a\<close> lies between its altitudes at
  the lower and at the upper culmination.
\<close>

lemma altitude_reached:
  assumes lat: "- 90 < lat" "lat < 90" and D: "- 90 < D" "D < 90"
    and a: "- 90 \<le> a" "a \<le> 90"
    and up: "0 \<le> lat - D" "lat - D \<le> 90 - a"
    and lo: "0 \<le> lat + D" "lat + D \<le> 90 + a"
  shows "\<exists>v. cosHourAngle (lat * pi / 180) (D * pi / 180) (a * pi / 180) = Fin v \<and> \<bar>v\<bar> \<le> 1"
proof -
  from den_pos [OF lat D] have den: "0 < cos (lat * pi / 180) * cos (D * pi / 180)" .
  have "cos ((90 - a) * pi / 180) \<le> cos ((lat - D) * pi / 180)"
    using up a by (intro cos_deg_anti) simp_all
  then have u: "sin (a * pi / 180) \<le> cos (lat * pi / 180 - D * pi / 180)"
    by (simp only: deg_diff sin_deg_co)
  have "cos ((90 + a) * pi / 180) \<le> cos ((lat + D) * pi / 180)"
    using lo a by (intro cos_deg_anti) simp_all
  moreover have "cos ((90 + a) * pi / 180) = - sin (a * pi / 180)"
  proof -
    have "(90 + a) * pi / 180 = pi / 2 + a * pi / 180" by (simp add: field_simps)
    then show ?thesis by (simp only: cos_add) simp
  qed
  ultimately have l: "- cos (lat * pi / 180 + D * pi / 180) \<le> sin (a * pi / 180)"
    unfolding deg_sum by linarith
  from cosHourAngle_Fin [OF pos_nz [OF den]] hour_angle_defined [OF den u l] show ?thesis by blast
qed

lemma altitude_not_reached:
  assumes lat: "- 90 < lat" "lat < 90" and D: "- 90 < D" "D < 90"
    and a: "- 90 \<le> a" "a \<le> 90"
    and lo: "90 + a < lat + D" "lat + D \<le> 180"
  shows "js_abs_gt (cosHourAngle (lat * pi / 180) (D * pi / 180) (a * pi / 180)) 1"
proof -
  from den_pos [OF lat D] have den: "0 < cos (lat * pi / 180) * cos (D * pi / 180)" .
  have "cos ((lat + D) * pi / 180) < cos ((90 + a) * pi / 180)"
    using lo a by (intro cos_deg_strict) simp_all
  moreover have "cos ((90 + a) * pi / 180) = - sin (a * pi / 180)"
  proof -
    have "(90 + a) * pi / 180 = pi / 2 + a * pi / 180" by (simp add: field_simps)
    then show ?thesis by (simp only: cos_add) simp
  qed
  ultimately have l: "sin (a * pi / 180) < - cos (lat * pi / 180 + D * pi / 180)"
    unfolding deg_sum by linarith
  note nz = pos_nz [OF den]
  from below_minus_one [OF hour_angle_undefined [OF den l]] show ?thesis
    unfolding cosHourAngle_Fin [OF nz] js_abs_gt_Fin .
qed

lemma altitude_not_reached_above:
  assumes lat: "- 90 < lat" "lat < 90" and D: "- 90 < D" "D < 90"
    and a: "- 90 \<le> a" "a \<le> 90"
    and up: "90 - a < lat - D" "lat - D \<le> 180"
  shows "js_abs_gt (cosHourAngle (lat * pi / 180) (D * pi / 180) (a * pi / 180)) 1"
proof -
  from den_pos [OF lat D] have den: "0 < cos (lat * pi / 180) * cos (D * pi / 180)" .
  note nz = pos_nz [OF den]
  have "cos ((lat - D) * pi / 180) < cos ((90 - a) * pi / 180)"
    using up a by (intro cos_deg_strict) simp_all
  then have "cos (lat * pi / 180 - D * pi / 180) < sin (a * pi / 180)"
    by (simp only: deg_diff sin_deg_co)
  then have "cos (lat * pi / 180) * cos (D * pi / 180)
      < sin (a * pi / 180) - sin (lat * pi / 180) * sin (D * pi / 180)"
    unfolding cos_diff by linarith
  with den have "1 < (sin (a * pi / 180) - sin (lat * pi / 180) * sin (D * pi / 180))
                    / (cos (lat * pi / 180) * cos (D * pi / 180))"
    by (simp add: field_simps)
  then have "1 < \<bar>(sin (a * pi / 180) - sin (lat * pi / 180) * sin (D * pi / 180))
                    / (cos (lat * pi / 180) * cos (D * pi / 180))\<bar>"
    by linarith
  then show ?thesis unfolding cosHourAngle_Fin [OF nz] js_abs_gt_Fin .
qed

lemma lambda_d1:
  "346.5346706 \<le> eclipticLongitude 2451614 \<and> eclipticLongitude 2451614 \<le> 350.4046706"
  using lambda_near_L [of 2451614] by (simp add: L_d1)

lemma half_mult_le: "0 \<le> (s::real) \<Longrightarrow> e \<le> 1 / 2 \<Longrightarrow> e * s \<le> s / 2"
proof -
  assume "0 \<le> s" "e \<le> 1 / 2"
  then have "e * s \<le> (1 / 2) * s" by (intro mult_right_mono)
  then show ?thesis by simp
qed

lemma declination_d1: "- 7 < getSolarDeclination 2451614 \<and> getSolarDeclination 2451614 \<le> 0"
proof -
  define x where "x = 360 - eclipticLongitude 2451614"
  from lambda_d1 have x: "9.5953294 \<le> x" "x \<le> 13.4653294" by (simp_all add: x_def)
  let ?e = "sin (23.439 * pi / 180)"
  let ?s = "sin (x * pi / 180)"
  have sl: "sin (eclipticLongitude 2451614 * pi / 180) = - ?s"
    unfolding x_def by (rule sin_deg_360)
  have s0: "0 \<le> ?s" using x by (intro sin_deg_nonneg) simp_all
  have "?s < sin (14 * pi / 180)" using x by (intro sin_deg_strict) simp_all
  also have "sin (14 * pi / 180) = 2 * sin (7 * pi / 180) * cos (7 * pi / 180)"
  proof -
    have "14 * pi / 180 = 2 * (7 * pi / 180)" by simp
    then show ?thesis by (simp only: sin_double)
  qed
  also have "\<dots> \<le> 2 * sin (7 * pi / 180) * 1"
  proof (intro mult_left_mono)
    show "cos (7 * pi / 180) \<le> 1" by simp
    have "0 \<le> sin (7 * pi / 180)" by (intro sin_deg_nonneg) simp_all
    then show "0 \<le> 2 * sin (7 * pi / 180)" by simp
  qed
  finally have s14: "?s / 2 < sin (7 * pi / 180)" by simp
  from half_mult_le [OF s0 sin_eps_bounds(2)] s14 have lt: "?e * ?s < sin (7 * pi / 180)"
    by linarith
  have prod: "?e * sin (eclipticLongitude 2451614 * pi / 180) = - (?e * ?s)"
    by (simp add: sl)
  have gt: "sin (- 7 * pi / 180) < ?e * sin (eclipticLongitude 2451614 * pi / 180)"
    unfolding prod sin_deg_minus using lt by simp
  from sin_eps_bounds(1) s0 have "0 \<le> ?e * ?s" by (rule mult_nonneg_nonneg)
  then have le0: "?e * sin (eclipticLongitude 2451614 * pi / 180) \<le> 0"
    unfolding prod by simp
  have "arcsin (sin (- 7 * pi / 180)) < arcsin (?e * sin (eclipticLongitude 2451614 * pi / 180))"
    using gt le0 by (intro arcsin_less_arcsin) simp_all
  moreover have "arcsin (sin (- 7 * pi / 180)) = - 7 * pi / 180"
    by (rule arcsin_sin_deg) simp_all
  ultimately have "- 7 * pi / 180 < getSolarDeclination 2451614 * pi / 180"
    by (simp only: decRad_eq)
  then have a: "- 7 < getSolarDeclination 2451614" by (simp only: deg_less_iff)
  have "- 1 \<le> ?e * sin (eclipticLongitude 2451614 * pi / 180)"
    using gt sin_ge_minus_one [of "- 7 * pi / 180"] by linarith
  then have "arcsin (?e * sin (eclipticLongitude 2451614 * pi / 180)) \<le> arcsin 0"
    using le0 by (intro arcsin_le_arcsin) simp_all
  then have "getSolarDeclination 2451614 * pi / 180 \<le> 0 * pi / 180"
    by (simp only: decRad_eq) simp
  then have b: "getSolarDeclination 2451614 \<le> 0" by (simp only: deg_le_iff)
  from a b show ?thesis ..
qed

lemma to_deg_le: "A \<le> b * pi / 180 \<Longrightarrow> A * 180 / pi \<le> b"
  by (simp add: field_simps)

lemma to_deg_gt: "b * pi / 180 < A \<Longrightarrow> b < A * 180 / pi"
  by (simp add: field_simps)

lemma equationOfTime_d0:
  "1301.84 \<le> getEquationOfTime 2451545 \<and> getEquationOfTime 2451545 < 1481.84"
proof -
  define x where "x = eclipticLongitude 2451545 - 270"
  from lambda_d0 have x: "8.525 \<le> x" "x \<le> 12.395" by (simp_all add: x_def)
  let ?ce = "cos (23.439 * pi / 180)"
  let ?X = "sin (x * pi / 180)" and ?C = "cos (x * pi / 180)"
  have sl: "sin (eclipticLongitude 2451545 * pi / 180) = - ?C"
    unfolding x_def by (rule sin_deg_270)
  have cl: "cos (eclipticLongitude 2451545 * pi / 180) = ?X"
    unfolding x_def by (rule cos_deg_270)
  have Xpos: "0 < ?X"
  proof -
    have "sin (0 * pi / 180) < sin (x * pi / 180)" using x by (intro sin_deg_strict) simp_all
    then show ?thesis by simp
  qed
  have prod: "?ce * ?C = (cos ((23.439 - x) * pi / 180) + cos ((23.439 + x) * pi / 180)) / 2"
    by (rule cos_cos_deg)
  have "cos ((90 - x) * pi / 180) \<le> cos ((23.439 - x) * pi / 180)"
    using x by (intro cos_deg_anti) simp_all
  moreover have "cos ((90 - x) * pi / 180) \<le> cos ((23.439 + x) * pi / 180)"
    using x by (intro cos_deg_anti) simp_all
  ultimately have "cos ((90 - x) * pi / 180) \<le> ?ce * ?C"
    unfolding prod by (rule avg_ge)
  then have ge: "?X \<le> ?ce * ?C" by (simp only: sin_deg_co)
  with Xpos have "?ce * (- ?C) / ?X \<le> - 1" by (simp add: field_simps)
  then have "arctan (?ce * (- ?C) / ?X) \<le> arctan (- 1)" by (simp only: arctan_le_iff)
  also have "arctan (- 1) = - 45 * pi / 180" by (simp add: arctan_minus arctan_one)
  finally have up: "arctan (?ce * (- ?C) / ?X) * 180 / pi \<le> - 45" by (rule to_deg_le)
  have "- 90 * pi / 180 < arctan (?ce * (- ?C) / ?X)"
    using arctan_lbound [of "?ce * (- ?C) / ?X"] by simp
  then have lo: "- 90 < arctan (?ce * (- ?C) / ?X) * 180 / pi" by (rule to_deg_gt)
  have at: "atan2 (?ce * (- ?C)) ?X = arctan (?ce * (- ?C) / ?X)"
    using Xpos by (simp add: atan2_def)
  have "getEquationOfTime 2451545 = 4 * (280.46 - arctan (?ce * (- ?C) / ?X) * 180 / pi)"
    unfolding getEquationOfTime_def Let_def L_d0 sl cl at ..
  with up lo show ?thesis by simp
qed

lemma solarNoon_d0:
  "- 12.7 < getSolarNoon 0 (getEquationOfTime 2451545) 0
   \<and> getSolarNoon 0 (getEquationOfTime 2451545) 0 \<le> - 9.69"
  using equationOfTime_d0 by (simp add: getSolarNoon_def)

lemma calculatePrayerTime_fallback:
  assumes "js_abs_gt (cosHourAngle (lat * pi / 180) (declination * pi / 180) (angle * pi / 180)) 1"
  shows "calculatePrayerTime lat lng declination equationOfTime angle isSunrise timezoneOffset
           = Some (if isSunrise then 6 + timezoneOffset else 18 + timezoneOffset)"
  using assms by (simp add: calculatePrayerTime_def Let_def)

lemma calculatePrayerTime_solved:
  assumes "cosHourAngle (lat * pi / 180) (declination * pi / 180) (angle * pi / 180) = Fin v"
    and "\<bar>v\<bar> \<le> 1"
  shows "calculatePrayerTime lat lng declination equationOfTime angle isSunrise timezoneOffset
           = Some (if isSunrise
                   then getSolarNoon lng equationOfTime timezoneOffset - arccos v * 180 / pi / 15
                   else getSolarNoon lng equationOfTime timezoneOffset + arccos v * 180 / pi / 15)"
  using assms by (simp add: calculatePrayerTime_def Let_def js_abs_gt_Fin)

lemma hourAngle_range:
  assumes "\<bar>v\<bar> \<le> 1"
  shows "0 \<le> arccos v * 180 / pi / 15" and "arccos v * 180 / pi / 15 \<le> 12"
proof -
  from assms have v: "- 1 \<le> v" "v \<le> 1" by linarith+
  from arccos_lbound [OF v] show "0 \<le> arccos v * 180 / pi / 15" by simp
  from arccos_ubound [OF v] show "arccos v * 180 / pi / 15 \<le> 12"
    by (simp add: field_simps)
qed

lemma sum_below: "n \<le> b \<Longrightarrow> H \<le> c \<Longrightarrow> b + c < k \<Longrightarrow> n + H < (k::real)"
  by linarith

lemma solarTimes_nth:
  "solarTimes lat lng d ! 0 =
     calculatePrayerTime lat lng (getSolarDeclination (getJulianDate d))
       (getEquationOfTime (getJulianDate d)) fajrAngle False (timezoneOffsetOf d)"
  "solarTimes lat lng d ! 1 =
     calculatePrayerTime lat lng (getSolarDeclination (getJulianDate d))
       (getEquationOfTime (getJulianDate d)) maghribAngle True (timezoneOffsetOf d)"
  "solarTimes lat lng d ! 2 =
     Some (getSolarNoon lng (getEquationOfTime (getJulianDate d)) (timezoneOffsetOf d))"
  "solarTimes lat lng d ! 3 =
     getAsrTime lat lng (getSolarDeclination (getJulianDate d))
       (getEquationOfTime (getJulianDate d)) (timezoneOffsetOf d)"
  "solarTimes lat lng d ! 4 =
     calculatePrayerTime lat lng (getSolarDeclination (getJulianDate d))
       (getEquationOfTime (getJulianDate d)) maghribAngle False (timezoneOffsetOf d)"
  "solarTimes lat lng d ! 5 =
     calculatePrayerTime lat lng (getSolarDeclination (getJulianDate d))
       (getEquationOfTime (getJulianDate d)) ishaAngle False (timezoneOffsetOf d)"
  by (simp_all add: solarTimes_def Let_def)

lemma tz_d0: "timezoneOffsetOf date_2000_01_01 = 0"
  by (simp add: timezoneOffsetOf_def date_2000_01_01_def)

lemma declination_d0_range:
  "- 23.439 \<le> getSolarDeclination 2451545" "getSolarDeclination 2451545 \<le> - 11"
  using declination_range [of 2451545] declination_d0 by simp_all

lemma twilight_80N_d0:
  assumes a: "a = - 18 \<or> a = - 17"
  shows "\<exists>v. cosHourAngle (80 * pi / 180) (getSolarDeclination 2451545 * pi / 180) (a * pi / 180) = Fin v
             \<and> \<bar>v\<bar> \<le> 1"
proof (rule altitude_reached)
  note D = declination_d0_range
  show "- 90 < (80::real)" "(80::real) < 90" by simp_all
  from D show "- 90 < getSolarDeclination 2451545" "getSolarDeclination 2451545 < 90" by simp_all
  from a show "- 90 \<le> a" "a \<le> 90" by auto
  from D show "0 \<le> 80 - getSolarDeclination 2451545" by simp
  from D a show "80 - getSolarDeclination 2451545 \<le> 90 - a" by auto
  from D show "0 \<le> 80 + getSolarDeclination 2451545" by simp
  from D a show "80 + getSolarDeclination 2451545 \<le> 90 + a" by auto
qed

lemma not_abs_gt: "\<bar>v\<bar> \<le> 1 \<Longrightarrow> \<not> js_abs_gt (Fin v) 1"
  by (simp add: js_abs_gt_Fin)

lemma tz_d1: "timezoneOffsetOf date_2000_03_10 = 1"
  by (simp add: timezoneOffsetOf_def date_2000_03_10_def)


section \<open>The fallback at 80 degrees north\<close>

text \<open>
  Claim C2, as stated, fails. It says that at latitude 80 degrees north on a winter date
  the hour-angle computation for Fajr (18 degrees) and for Isha (17 degrees) yields
  \<open>|cos H| > 1\<close>, so that Fajr becomes 6 + offset and Isha 18 + offset. On 1 January
  2000 the sun at 80 degrees north stays between 13 and 34 degrees below the horizon: it
  passes both 17 and 18 degrees, neither call takes the fallback branch, and the two
  times are not the fallback values.
\<close>

theorem winter_80N_no_fallback:
  "\<not> js_abs_gt (cosHourAngle (80 * pi / 180) (getSolarDeclination (getJulianDate date_2000_01_01) * pi / 180)
                  (fajrAngle * pi / 180)) 1
   \<and> \<not> js_abs_gt (cosHourAngle (80 * pi / 180) (getSolarDeclination (getJulianDate date_2000_01_01) * pi / 180)
                  (ishaAngle * pi / 180)) 1
   \<and> solarTimes 80 0 date_2000_01_01 ! 0 \<noteq> Some (6 + timezoneOffsetOf date_2000_01_01)
   \<and> solarTimes 80 0 date_2000_01_01 ! 5 \<noteq> Some (18 + timezoneOffsetOf date_2000_01_01)"
proof -
  let ?D = "getSolarDeclination 2451545"
  let ?noon = "getSolarNoon 0 (getEquationOfTime 2451545) 0"
  obtain vf where vf: "cosHourAngle (80 * pi / 180) (?D * pi / 180) (- 18 * pi / 180) = Fin vf"
      "\<bar>vf\<bar> \<le> 1"
    using twilight_80N_d0 [of "- 18"] by auto
  obtain vi where vi: "cosHourAngle (80 * pi / 180) (?D * pi / 180) (- 17 * pi / 180) = Fin vi"
      "\<bar>vi\<bar> \<le> 1"
    using twilight_80N_d0 [of "- 17"] by auto
  have f1: "\<not> js_abs_gt (cosHourAngle (80 * pi / 180) (?D * pi / 180) (fajrAngle * pi / 180)) 1"
    unfolding fajrAngle_def vf(1) using vf(2) by (rule not_abs_gt)
  have i1: "\<not> js_abs_gt (cosHourAngle (80 * pi / 180) (?D * pi / 180) (ishaAngle * pi / 180)) 1"
    unfolding ishaAngle_def vi(1) using vi(2) by (rule not_abs_gt)
  have fajr: "solarTimes 80 0 date_2000_01_01 ! 0 = Some (?noon + arccos vf * 180 / pi / 15)"
    unfolding solarTimes_nth jd_d0 tz_d0 fajrAngle_def
    using calculatePrayerTime_solved [OF vf, of 0 "getEquationOfTime 2451545" False 0] by simp
  have isha: "solarTimes 80 0 date_2000_01_01 ! 5 = Some (?noon + arccos vi * 180 / pi / 15)"
    unfolding solarTimes_nth jd_d0 tz_d0 ishaAngle_def
    using calculatePrayerTime_solved [OF vi, of 0 "getEquationOfTime 2451545" False 0] by simp
  have nb: "?noon \<le> - 9.69" using solarNoon_d0 ..
  have "?noon + arccos vf * 180 / pi / 15 < 6"
    by (rule sum_below [OF nb hourAngle_range(2) [OF vf(2)]]) simp
  with fajr have f2: "solarTimes 80 0 date_2000_01_01 ! 0 \<noteq> Some (6 + timezoneOffsetOf date_2000_01_01)"
    by (simp add: tz_d0)
  have "?noon + arccos vi * 180 / pi / 15 < 18"
    by (rule sum_below [OF nb hourAngle_range(2) [OF vi(2)]]) simp
  with isha have i2: "solarTimes 80 0 date_2000_01_01 ! 5 \<noteq> Some (18 + timezoneOffsetOf date_2000_01_01)"
    by (simp add: tz_d0)
  from f1 i1 f2 i2 show ?thesis unfolding jd_d0 by (intro conjI)
qed

text \<open>
  Claim C2, amended. At every latitude, so at 80 degrees north: on a date on which the
  hour-angle computation for Isha yields \<open>|cos H| > 1\<close> the fallback branch is taken and
  Isha is 18 + offset hours before normalisation; on a date on which the computation
  for the altitude of sunrise and sunset does, Sunrise is 6 + offset and Maghrib is
  18 + offset. At 80 degrees north the first happens on 10 March 2000 and the second on
  1 January 2000.
\<close>

theorem fallback_values:
  "(js_abs_gt (cosHourAngle (lat * pi / 180) (getSolarDeclination (getJulianDate d) * pi / 180)
                 (ishaAngle * pi / 180)) 1
      \<longrightarrow> solarTimes lat lng d ! 5 = Some (18 + timezoneOffsetOf d))
   \<and> (js_abs_gt (cosHourAngle (lat * pi / 180) (getSolarDeclination (getJulianDate d) * pi / 180)
                 (maghribAngle * pi / 180)) 1
      \<longrightarrow> solarTimes lat lng d ! 1 = Some (6 + timezoneOffsetOf d)
          \<and> solarTimes lat lng d ! 4 = Some (18 + timezoneOffsetOf d))"
  unfolding solarTimes_nth by (simp add: calculatePrayerTime_fallback)

theorem fallback_values_witness:
  "js_abs_gt (cosHourAngle (80 * pi / 180) (getSolarDeclination (getJulianDate date_2000_03_10) * pi / 180)
                 (ishaAngle * pi / 180)) 1
   \<and> solarTimes 80 0 date_2000_03_10 ! 5 = Some 19
   \<and> js_abs_gt (cosHourAngle (80 * pi / 180) (getSolarDeclination (getJulianDate date_2000_01_01) * pi / 180)
                 (maghribAngle * pi / 180)) 1
   \<and> solarTimes 80 0 date_2000_01_01 ! 1 = Some 6
   \<and> solarTimes 80 0 date_2000_01_01 ! 4 = Some 18"
proof -
  have isha: "js_abs_gt (cosHourAngle (80 * pi / 180) (getSolarDeclination (getJulianDate date_2000_03_10) * pi / 180)
                 (ishaAngle * pi / 180)) 1"
    unfolding jd_d1 ishaAngle_def
  proof (rule altitude_not_reached)
    note D = declination_d1
    show "- 90 < (80::real)" "(80::real) < 90" "- 90 \<le> (- 17 :: real)" "(- 17 :: real) \<le> 90"
      by simp_all
    from D show "- 90 < getSolarDeclination 2451614" "getSolarDeclination 2451614 < 90"
      "90 + - 17 < 80 + getSolarDeclination 2451614" "80 + getSolarDeclination 2451614 \<le> 180"
      by simp_all
  qed
  have rise: "js_abs_gt (cosHourAngle (80 * pi / 180) (getSolarDeclination (getJulianDate date_2000_01_01) * pi / 180)
                 (maghribAngle * pi / 180)) 1"
    unfolding jd_d0 maghribAngle_def
  proof (rule altitude_not_reached_above)
    note D = declination_d0_range
    show "- 90 < (80::real)" "(80::real) < 90" "- 90 \<le> (- 0.833 :: real)" "(- 0.833 :: real) \<le> 90"
      by simp_all
    from D show "- 90 < getSolarDeclination 2451545" "getSolarDeclination 2451545 < 90"
      "90 - - 0.833 < 80 - getSolarDeclination 2451545" "80 - getSolarDeclination 2451545 \<le> 180"
      by simp_all
  qed
  from fallback_values [of 80 date_2000_03_10 0] isha have a: "solarTimes 80 0 date_2000_03_10 ! 5 = Some 19"
    by (simp add: tz_d1)
  from fallback_values [of 80 date_2000_01_01 0] rise
  have b: "solarTimes 80 0 date_2000_01_01 ! 1 = Some 6" and c: "solarTimes 80 0 date_2000_01_01 ! 4 = Some 18"
    by (simp_all add: tz_d0)
  from isha a rise b c show ?thesis by (intro conjI)
qed


section \<open>Thirty degrees north on 1 January 2000\<close>

text \<open>
  The hour angles at latitude 30, longitude 0, on the first date. Sines and cosines are
  compared through the angles, with the values at 30 and 60 degrees and the formula of
  the triple angle.
\<close>

lemma sin_treble: "sin (3 * x) = 3 * sin x - 4 * sin x ^ 3" for x :: real
proof -
  have c: "cos x ^ 2 = 1 - sin x ^ 2"
    using sin_cos_squared_add [of x] by (simp add: algebra_simps)
  have "sin (3 * x) = sin (2 * x + x)" by simp
  also have "\<dots> = 2 * sin x * cos x * cos x + (1 - 2 * sin x ^ 2) * sin x"
    unfolding sin_add sin_double cos_double_sin ..
  also have "\<dots> = 2 * sin x * cos x ^ 2 + (1 - 2 * sin x ^ 2) * sin x"
    by (simp add: power2_eq_square)
  also have "\<dots> = 3 * sin x - 4 * sin x ^ 3"
    unfolding c by (simp add: algebra_simps power2_eq_square power3_eq_cube)
  finally show ?thesis .
qed

lemma twice_le_treble:
  fixes s :: real
  assumes "0 \<le> s" "s \<le> 1 / 2"
  shows "2 * s \<le> 3 * s - 4 * s ^ 3"
proof -
  from assms have "s * s \<le> (1 / 2) * (1 / 2)" by (intro mult_mono) simp_all
  then have "4 * (s * s) \<le> 1" by simp
  with assms(1) have "s * (4 * (s * s)) \<le> s * 1" by (intro mult_left_mono)
  then show ?thesis by (simp add: power3_eq_cube algebra_simps)
qed

lemma sin_18_bounds:
  "0 \<le> sin (18 * pi / 180)" "sin (18 * pi / 180) \<le> 1 / 2"
  "2 * sin (18 * pi / 180) \<le> cos (36 * pi / 180)"
proof -
  show nn: "0 \<le> sin (18 * pi / 180)" by (rule sin_deg_nonneg) simp_all
  have "sin (18 * pi / 180) \<le> sin (30 * pi / 180)" by (rule sin_deg_mono) simp_all
  then show half: "sin (18 * pi / 180) \<le> 1 / 2" by (simp only: sin_deg_30)
  have "54 * pi / 180 = 3 * (18 * pi / 180)" by simp
  then have "sin (54 * pi / 180) = 3 * sin (18 * pi / 180) - 4 * sin (18 * pi / 180) ^ 3"
    by (simp only: sin_treble)
  with twice_le_treble [OF nn half] have "2 * sin (18 * pi / 180) \<le> sin (54 * pi / 180)"
    by simp
  also have "sin (54 * pi / 180) = cos ((90 - 54) * pi / 180)" by (rule sin_deg_co)
  finally show "2 * sin (18 * pi / 180) \<le> cos (36 * pi / 180)" by simp
qed

lemma cos_deg_60: "cos (60 * pi / 180) = 1 / 2"
proof -
  have "60 * pi / 180 = pi / 3" by simp
  then show ?thesis by (simp only: cos_60)
qed

lemma den_30N:
  assumes D: "- 30 \<le> D" "D \<le> 30"
  shows "1 / 2 \<le> cos (30 * pi / 180) * cos (D * pi / 180)"
proof -
  have prod: "cos (30 * pi / 180) * cos (D * pi / 180)
      = (cos ((30 - D) * pi / 180) + cos ((30 + D) * pi / 180)) / 2"
    by (rule cos_cos_deg)
  have "cos (60 * pi / 180) \<le> cos ((30 - D) * pi / 180)"
    using D by (intro cos_deg_anti) simp_all
  moreover have "cos (60 * pi / 180) \<le> cos ((30 + D) * pi / 180)"
    using D by (intro cos_deg_anti) simp_all
  ultimately have "cos (60 * pi / 180) \<le> cos (30 * pi / 180) * cos (D * pi / 180)"
    unfolding prod by (rule avg_ge)
  then show ?thesis by (simp only: cos_deg_60)
qed

lemma arccos_deg: "0 \<le> a \<Longrightarrow> a \<le> 180 \<Longrightarrow> arccos (cos (a * pi / 180)) = a * pi / 180"
proof (rule arccos_cos)
  assume a: "0 \<le> a" and b: "a \<le> 180"
  from deg_le [OF a] show "0 \<le> a * pi / 180" by simp
  from deg_le [OF b] show "a * pi / 180 \<le> pi" by simp
qed

lemma cos_deg_supp: "cos ((180 - a) * pi / 180) = - cos (a * pi / 180)"
proof -
  have e: "(180 - a) * pi / 180 = pi - a * pi / 180" by (simp add: field_simps)
  show ?thesis unfolding e by simp
qed

lemma hourAngle_ge_6:
  assumes "- 1 \<le> v" "v \<le> 0"
  shows "6 \<le> arccos v * 180 / pi / 15"
proof -
  from assms have "arccos 0 \<le> arccos v" by (intro arccos_le_arccos) simp_all
  then have "pi / 2 \<le> arccos v" by simp
  then show ?thesis by (simp add: field_simps)
qed

lemma hourAngle_le_9_6:
  assumes "- cos (36 * pi / 180) \<le> v" "v \<le> 1"
  shows "arccos v * 180 / pi / 15 \<le> 9.6"
proof -
  have c: "- cos (36 * pi / 180) = cos (144 * pi / 180)"
    using cos_deg_supp [of 36] by simp
  have "- 1 \<le> cos (144 * pi / 180)" by simp
  with assms c have "arccos v \<le> arccos (cos (144 * pi / 180))"
    by (intro arccos_le_arccos) simp_all
  also have "\<dots> = 144 * pi / 180" by (rule arccos_deg) simp_all
  finally show ?thesis by (simp add: field_simps)
qed

lemma twilight_30N:
  assumes D: "- 23.439 \<le> D" "D \<le> - 11" and a: "- 18 \<le> a" "a \<le> 0"
  shows "\<exists>v. cosHourAngle (30 * pi / 180) (D * pi / 180) (a * pi / 180) = Fin v
             \<and> \<bar>v\<bar> \<le> 1 \<and> - cos (36 * pi / 180) \<le> v
             \<and> (a = - 18 \<longrightarrow> v \<le> 0)"
proof -
  let ?n = "sin (a * pi / 180) - sin (30 * pi / 180) * sin (D * pi / 180)"
  let ?d = "cos (30 * pi / 180) * cos (D * pi / 180)"
  have ex: "\<exists>v. cosHourAngle (30 * pi / 180) (D * pi / 180) (a * pi / 180) = Fin v \<and> \<bar>v\<bar> \<le> 1"
    using D a by (intro altitude_reached) simp_all
  have dhalf: "1 / 2 \<le> ?d" using D by (intro den_30N) simp_all
  then have dpos: "0 < ?d" by linarith
  from cosHourAngle_Fin [OF pos_nz [OF dpos]]
  have v: "cosHourAngle (30 * pi / 180) (D * pi / 180) (a * pi / 180) = Fin (?n / ?d)" .
  with ex have abs: "\<bar>?n / ?d\<bar> \<le> 1" by simp
  have sD: "sin (D * pi / 180) \<le> 0"
  proof -
    have "sin (D * pi / 180) \<le> sin (0 * pi / 180)" using D by (intro sin_deg_mono) simp_all
    then show ?thesis by simp
  qed
  have sa: "- sin (18 * pi / 180) \<le> sin (a * pi / 180)"
  proof -
    have "sin (- 18 * pi / 180) \<le> sin (a * pi / 180)" using a by (intro sin_deg_mono) simp_all
    then show ?thesis by simp
  qed
  have "sin (30 * pi / 180) * sin (D * pi / 180) \<le> 0"
    unfolding sin_deg_30 using sD by simp
  with sa have nlow: "- sin (18 * pi / 180) \<le> ?n" by linarith
  have c36: "0 \<le> cos (36 * pi / 180)" using sin_18_bounds(1) sin_18_bounds(3) by linarith
  from c36 dhalf have "cos (36 * pi / 180) * (1 / 2) \<le> cos (36 * pi / 180) * ?d"
    by (intro mult_left_mono)
  with sin_18_bounds(3) nlow have "- (cos (36 * pi / 180) * ?d) \<le> ?n" by linarith
  with dpos have low: "- cos (36 * pi / 180) \<le> ?n / ?d"
    by (simp add: field_simps)
  have fajr: "a = - 18 \<longrightarrow> ?n / ?d \<le> 0"
  proof
    assume a18: "a = - 18"
    have "sin (- D * pi / 180) \<le> sin (36 * pi / 180)" using D by (intro sin_deg_mono) simp_all
    also have "sin (36 * pi / 180) = 2 * sin (18 * pi / 180) * cos (18 * pi / 180)"
    proof -
      have "36 * pi / 180 = 2 * (18 * pi / 180)" by simp
      then show ?thesis by (simp only: sin_double)
    qed
    also have "\<dots> \<le> 2 * sin (18 * pi / 180) * 1"
      using sin_18_bounds(1) by (intro mult_left_mono) simp_all
    finally have "- sin (D * pi / 180) \<le> 2 * sin (18 * pi / 180)" by simp
    then have "?n \<le> 0" unfolding a18 sin_deg_30 by simp
    with dpos show "?n / ?d \<le> 0" by (simp add: divide_nonpos_pos)
  qed
  from v abs low fajr show ?thesis by blast
qed


section \<open>Hour and minute of a computed time\<close>

lemma raiseToDay_once: "- 24 \<le> t \<Longrightarrow> t < 0 \<Longrightarrow> raiseToDay t = t + 24"
  by (simp add: raiseToDay.simps [of t] raiseToDay.simps [of "t + 24"])

lemma raiseToDay_id: "0 \<le> t \<Longrightarrow> raiseToDay t = t"
  by (simp add: raiseToDay.simps [of t])

lemma lowerToDay_id: "u < 24 \<Longrightarrow> lowerToDay u = u"
  by (simp add: lowerToDay.simps [of u])

lemma timeToHourMinute_day:
  assumes u: "0 \<le> u" "u < 2399 / 100" and norm: "lowerToDay (raiseToDay t) = u"
  shows "\<exists>h m. timeToHourMinute (Some t) = (Some h, Some m)
           \<and> 0 \<le> h \<and> h \<le> 23 \<and> 0 \<le> m \<and> m \<le> 59
           \<and> 60 * u - 1 / 2 \<le> real_of_int (h * 60 + m)
           \<and> real_of_int (h * 60 + m) \<le> 60 * u + 1 / 2"
proof -
  define h0 where "h0 = \<lfloor>u\<rfloor>"
  define f where "f = (u - real_of_int h0) * 60"
  define r where "r = js_round f"
  have h0: "real_of_int h0 \<le> u" "u < real_of_int h0 + 1" unfolding h0_def by linarith+
  from u h0 have h0r: "0 \<le> h0" "h0 \<le> 23" by linarith+
  from h0 have f: "0 \<le> f" "f < 60" unfolding f_def by simp_all
  have r: "real_of_int r \<le> f + 1 / 2" "f + 1 / 2 < real_of_int r + 1"
    unfolding r_def js_round_def by linarith+
  from f r have rr: "0 \<le> r" "r \<le> 60" by linarith+
  have uf: "60 * u = 60 * real_of_int h0 + f" unfolding f_def by simp
  have tt: "timeToHourMinute (Some t) =
      (if 60 \<le> r then (Some ((h0 + 1) mod 24), Some 0) else (Some h0, Some (max 0 (min 59 r))))"
    unfolding timeToHourMinute_def by (simp add: norm Let_def h0_def f_def r_def)
  show ?thesis
  proof (cases "60 \<le> r")
    case True
    with rr have r60: "r = 60" by simp
    with r have "59 + 1 / 2 \<le> f" by simp
    with uf u have "60 * real_of_int h0 < 60 * (2399 / 100) - (59 + 1 / 2)" by linarith
    then have "real_of_int h0 < 23" by simp
    then have h22: "h0 \<le> 22" by linarith
    with h0r have m: "(h0 + 1) mod 24 = h0 + 1" by simp
    from True have e: "timeToHourMinute (Some t) = (Some (h0 + 1), Some 0)"
      unfolding tt m by simp
    have b: "60 * u - 1 / 2 \<le> real_of_int ((h0 + 1) * 60 + 0)"
      "real_of_int ((h0 + 1) * 60 + 0) \<le> 60 * u + 1 / 2"
      using uf f r r60 by simp_all
    from e h0r h22 b show ?thesis by (intro exI [of _ "h0 + 1"] exI [of _ 0]) simp
  next
    case False
    with rr have r59: "0 \<le> r" "r \<le> 59" by simp_all
    then have "max 0 (min 59 r) = r" by simp
    with False have e: "timeToHourMinute (Some t) = (Some h0, Some r)"
      unfolding tt by simp
    have b: "60 * u - 1 / 2 \<le> real_of_int (h0 * 60 + r)"
      "real_of_int (h0 * 60 + r) \<le> 60 * u + 1 / 2"
      using uf r by simp_all
    from e h0r r59 b show ?thesis by (intro exI [of _ h0] exI [of _ r]) simp
  qed
qed

lemma minutes_of_negative_time:
  assumes t: "lo \<le> t" "t \<le> hi" and lo: "- 24 \<le> lo" and hi: "hi < - (1 / 100)"
  shows "\<exists>h m. timeToHourMinute (Some t) = (Some h, Some m)
           \<and> 0 \<le> h \<and> h \<le> 23 \<and> 0 \<le> m \<and> m \<le> 59
           \<and> 60 * (lo + 24) - 1 / 2 \<le> real_of_int (h * 60 + m)
           \<and> real_of_int (h * 60 + m) \<le> 60 * (hi + 24) + 1 / 2"
proof -
  from t lo hi have tr: "- 24 \<le> t" "t < 0" by linarith+
  then have "raiseToDay t = t + 24" by (rule raiseToDay_once)
  moreover from tr have "lowerToDay (t + 24) = t + 24" by (intro lowerToDay_id) simp
  ultimately have norm: "lowerToDay (raiseToDay t) = t + 24" by simp
  from t lo hi have u: "0 \<le> t + 24" "t + 24 < 2399 / 100" by linarith+
  from timeToHourMinute_day [OF u norm] obtain h m where
    hm: "timeToHourMinute (Some t) = (Some h, Some m)" "0 \<le> h" "h \<le> 23" "0 \<le> m" "m \<le> 59"
      "60 * (t + 24) - 1 / 2 \<le> real_of_int (h * 60 + m)"
      "real_of_int (h * 60 + m) \<le> 60 * (t + 24) + 1 / 2"
    by blast
  from hm(6) t have a: "60 * (lo + 24) - 1 / 2 \<le> real_of_int (h * 60 + m)" by simp
  from hm(7) t have b: "real_of_int (h * 60 + m) \<le> 60 * (hi + 24) + 1 / 2" by simp
  from hm(1-5) a b show ?thesis by blast
qed

lemma prayerMinutes_solarTimes:
  "prayerMinutes (getIslamicPrayerTimes lat lng d)
     = map (\<lambda>t. case timeToHourMinute t of (h, m) \<Rightarrow> minutesOfDay h m) (solarTimes lat lng d)"
  by (simp add: prayerMinutes_def getIslamicPrayerTimes_def solarTimes_def withTime_def Let_def
      split: prod.split)

lemma getIslamicPrayerTimes_solarTimes:
  "getIslamicPrayerTimes lat lng d =
     [withTime ''fajr'' ''Fajr'' (solarTimes lat lng d ! 0),
      withTime ''sunrise'' ''Sunrise'' (solarTimes lat lng d ! 1),
      withTime ''dhuhr'' ''Dhuhr'' (solarTimes lat lng d ! 2),
      withTime ''asr'' ''Asr'' (solarTimes lat lng d ! 3),
      withTime ''maghrib'' ''Maghrib'' (solarTimes lat lng d ! 4),
      withTime ''isha'' ''Isha'' (solarTimes lat lng d ! 5)]"
  by (simp add: getIslamicPrayerTimes_def solarTimes_def Let_def)

lemma length_solarTimes: "length (solarTimes lat lng d) = 6"
  by (simp add: solarTimes_def Let_def)

lemma prayerMinutes_nth:
  assumes "i < 6" and "timeToHourMinute (solarTimes lat lng d ! i) = (Some h, Some m)"
  shows "prayerMinutes (getIslamicPrayerTimes lat lng d) ! i = Some (h * 60 + m)"
  using assms by (simp add: prayerMinutes_solarTimes length_solarTimes minutesOfDay_def)

lemma fajr_30N:
  "\<exists>v. cosHourAngle (30 * pi / 180) (getSolarDeclination 2451545 * pi / 180) (fajrAngle * pi / 180) = Fin v
      \<and> \<bar>v\<bar> \<le> 1
      \<and> 6 \<le> arccos v * 180 / pi / 15 \<and> arccos v * 180 / pi / 15 \<le> 9.6"
proof -
  from twilight_30N [OF declination_d0_range, of "- 18"] obtain v where
    v: "cosHourAngle (30 * pi / 180) (getSolarDeclination 2451545 * pi / 180) (- 18 * pi / 180) = Fin v"
      "\<bar>v\<bar> \<le> 1" "- cos (36 * pi / 180) \<le> v" "v \<le> 0"
    by auto
  from v(2) have v1: "- 1 \<le> v" "v \<le> 1" by linarith+
  from hourAngle_ge_6 [OF v1(1) v(4)] hourAngle_le_9_6 [OF v(3) v1(2)] v(1) v(2)
  show ?thesis unfolding fajrAngle_def by blast
qed

lemma sunrise_30N:
  "\<exists>v. cosHourAngle (30 * pi / 180) (getSolarDeclination 2451545 * pi / 180) (maghribAngle * pi / 180) = Fin v
      \<and> \<bar>v\<bar> \<le> 1
      \<and> 0 \<le> arccos v * 180 / pi / 15 \<and> arccos v * 180 / pi / 15 \<le> 9.6"
proof -
  from twilight_30N [OF declination_d0_range, of "- 0.833"] obtain v where
    v: "cosHourAngle (30 * pi / 180) (getSolarDeclination 2451545 * pi / 180) (- 0.833 * pi / 180) = Fin v"
      "\<bar>v\<bar> \<le> 1" "- cos (36 * pi / 180) \<le> v"
    by auto
  from v(2) have v1: "- 1 \<le> v" "v \<le> 1" by linarith+
  from hourAngle_range(1) [OF v(2)] hourAngle_le_9_6 [OF v(3) v1(2)] v(1) v(2)
  show ?thesis unfolding maghribAngle_def by blast
qed

lemma isha_30N:
  "\<exists>v. cosHourAngle (30 * pi / 180) (getSolarDeclination 2451545 * pi / 180) (ishaAngle * pi / 180) = Fin v
      \<and> \<bar>v\<bar> \<le> 1"
proof -
  from twilight_30N [OF declination_d0_range, of "- 17"] show ?thesis
    unfolding ishaAngle_def by auto
qed

lemma solarNoon_d0_bounds:
  "- (127 / 10) \<le> getSolarNoon 0 (getEquationOfTime 2451545) 0"
  "getSolarNoon 0 (getEquationOfTime 2451545) 0 \<le> - (969 / 100)"
  using solarNoon_d0 by simp_all

lemma sum_between:
  fixes n H :: real
  assumes "a \<le> n" "n \<le> b" "c \<le> H" "H \<le> e"
  shows "a + c \<le> n + H" "n + H \<le> b + e" "a - e \<le> n - H" "n - H \<le> b - c"
  using assms by linarith+

lemma int_ge_of_real:
  fixes k a :: int
  assumes "x \<le> real_of_int k" "real_of_int a - 1 < x"
  shows "a \<le> k"
proof -
  from assms have "real_of_int (a - 1) < real_of_int k" by simp
  then have "a - 1 < k" by (simp only: of_int_less_iff)
  then show ?thesis by simp
qed

lemma int_le_of_real:
  fixes k b :: int
  assumes "real_of_int k \<le> y" "y < real_of_int b + 1"
  shows "k \<le> b"
proof -
  from assms have "real_of_int k < real_of_int (b + 1)" by simp
  then have "k < b + 1" by (simp only: of_int_less_iff)
  then show ?thesis by simp
qed

lemma fajr_time_30N:
  "\<exists>v. cosHourAngle (30 * pi / 180) (getSolarDeclination 2451545 * pi / 180) (fajrAngle * pi / 180) = Fin v
      \<and> \<bar>v\<bar> \<le> 1
      \<and> 6 \<le> arccos v * 180 / pi / 15
      \<and> solarTimes 30 0 date_2000_01_01 ! 0
          = Some (getSolarNoon 0 (getEquationOfTime 2451545) 0 + arccos v * 180 / pi / 15)
      \<and> - (67 / 10) \<le> getSolarNoon 0 (getEquationOfTime 2451545) 0 + arccos v * 180 / pi / 15
      \<and> getSolarNoon 0 (getEquationOfTime 2451545) 0 + arccos v * 180 / pi / 15 \<le> - (9 / 100)"
proof -
  from fajr_30N obtain v where
    v: "cosHourAngle (30 * pi / 180) (getSolarDeclination 2451545 * pi / 180) (fajrAngle * pi / 180) = Fin v"
      "\<bar>v\<bar> \<le> 1" "6 \<le> arccos v * 180 / pi / 15" "arccos v * 180 / pi / 15 \<le> 96 / 10"
    by auto
  have t: "solarTimes 30 0 date_2000_01_01 ! 0
          = Some (getSolarNoon 0 (getEquationOfTime 2451545) 0 + arccos v * 180 / pi / 15)"
    unfolding solarTimes_nth jd_d0 tz_d0
    using calculatePrayerTime_solved [OF v(1) v(2), of 0 "getEquationOfTime 2451545" False 0] by simp
  note b = sum_between [OF solarNoon_d0_bounds v(3) v(4)]
  from b(1) have lo: "- (67 / 10) \<le> getSolarNoon 0 (getEquationOfTime 2451545) 0 + arccos v * 180 / pi / 15"
    by simp
  from b(2) have hi: "getSolarNoon 0 (getEquationOfTime 2451545) 0 + arccos v * 180 / pi / 15 \<le> - (9 / 100)"
    by simp
  from v(1) v(2) v(3) t lo hi show ?thesis by blast
qed

lemma sunrise_time_30N:
  "\<exists>v. cosHourAngle (30 * pi / 180) (getSolarDeclination 2451545 * pi / 180) (maghribAngle * pi / 180) = Fin v
      \<and> \<bar>v\<bar> \<le> 1
      \<and> solarTimes 30 0 date_2000_01_01 ! 1
          = Some (getSolarNoon 0 (getEquationOfTime 2451545) 0 - arccos v * 180 / pi / 15)
      \<and> - (223 / 10) \<le> getSolarNoon 0 (getEquationOfTime 2451545) 0 - arccos v * 180 / pi / 15
      \<and> getSolarNoon 0 (getEquationOfTime 2451545) 0 - arccos v * 180 / pi / 15 \<le> - (969 / 100)"
proof -
  from sunrise_30N obtain v where
    v: "cosHourAngle (30 * pi / 180) (getSolarDeclination 2451545 * pi / 180) (maghribAngle * pi / 180) = Fin v"
      "\<bar>v\<bar> \<le> 1" "0 \<le> arccos v * 180 / pi / 15" "arccos v * 180 / pi / 15 \<le> 96 / 10"
    by auto
  have t: "solarTimes 30 0 date_2000_01_01 ! 1
          = Some (getSolarNoon 0 (getEquationOfTime 2451545) 0 - arccos v * 180 / pi / 15)"
    unfolding solarTimes_nth jd_d0 tz_d0
    using calculatePrayerTime_solved [OF v(1) v(2), of 0 "getEquationOfTime 2451545" True 0] by simp
  note b = sum_between [OF solarNoon_d0_bounds v(3) v(4)]
  from b(3) have lo: "- (223 / 10) \<le> getSolarNoon 0 (getEquationOfTime 2451545) 0 - arccos v * 180 / pi / 15"
    by simp
  from b(4) have hi: "getSolarNoon 0 (getEquationOfTime 2451545) 0 - arccos v * 180 / pi / 15 \<le> - (969 / 100)"
    by simp
  from v(1) v(2) t lo hi show ?thesis by blast
qed

lemma fajr_minutes_30N:
  "\<exists>f. prayerMinutes (getIslamicPrayerTimes 30 0 date_2000_01_01) ! 0 = Some f \<and> 1038 \<le> f \<and> f \<le> 1435"
proof -
  from fajr_time_30N obtain t where
    t: "solarTimes 30 0 date_2000_01_01 ! 0 = Some t" "- (67 / 10) \<le> t" "t \<le> - (9 / 100)"
    by blast
  from minutes_of_negative_time [OF t(2) t(3)] obtain h m where
    hm: "timeToHourMinute (Some t) = (Some h, Some m)"
      "60 * (- (67 / 10) + 24) - 1 / 2 \<le> real_of_int (h * 60 + m)"
      "real_of_int (h * 60 + m) \<le> 60 * (- (9 / 100) + 24) + 1 / 2"
    by auto
  have "timeToHourMinute (solarTimes 30 0 date_2000_01_01 ! 0) = (Some h, Some m)"
    unfolding t(1) by (rule hm(1))
  then have p: "prayerMinutes (getIslamicPrayerTimes 30 0 date_2000_01_01) ! 0 = Some (h * 60 + m)"
    by (rule prayerMinutes_nth [rotated]) simp
  have a: "1038 \<le> h * 60 + m" by (rule int_ge_of_real [OF hm(2)]) simp
  have b: "h * 60 + m \<le> 1435" by (rule int_le_of_real [OF hm(3)]) simp
  from p a b show ?thesis by blast
qed

lemma sunrise_minutes_30N:
  "\<exists>s. prayerMinutes (getIslamicPrayerTimes 30 0 date_2000_01_01) ! 1 = Some s \<and> 101 \<le> s \<and> s \<le> 859"
proof -
  from sunrise_time_30N obtain t where
    t: "solarTimes 30 0 date_2000_01_01 ! 1 = Some t" "- (223 / 10) \<le> t" "t \<le> - (969 / 100)"
    by blast
  from minutes_of_negative_time [OF t(2) t(3)] obtain h m where
    hm: "timeToHourMinute (Some t) = (Some h, Some m)"
      "60 * (- (223 / 10) + 24) - 1 / 2 \<le> real_of_int (h * 60 + m)"
      "real_of_int (h * 60 + m) \<le> 60 * (- (969 / 100) + 24) + 1 / 2"
    by auto
  have "timeToHourMinute (solarTimes 30 0 date_2000_01_01 ! 1) = (Some h, Some m)"
    unfolding t(1) by (rule hm(1))
  then have p: "prayerMinutes (getIslamicPrayerTimes 30 0 date_2000_01_01) ! 1 = Some (h * 60 + m)"
    by (rule prayerMinutes_nth [rotated]) simp
  have a: "101 \<le> h * 60 + m" by (rule int_ge_of_real [OF hm(2)]) simp
  have b: "h * 60 + m \<le> 859" by (rule int_le_of_real [OF hm(3)]) simp
  from p a b show ?thesis by blast
qed

lemma asr_30N:
  assumes D: "- 23.439 \<le> D" "D \<le> - 11"
  shows "\<exists>e v. asrElevation (30 * pi / 180) (D * pi / 180) = Fin e
            \<and> cosHourAngle (30 * pi / 180) (D * pi / 180) e = Fin v \<and> \<bar>v\<bar> \<le> 1"
proof -
  let ?lr = "30 * pi / 180" and ?dr = "D * pi / 180"
  define z where "z = (30 - D) * pi / 180"
  have zd: "?lr - ?dr = z" unfolding z_def by (rule deg_diff)
  have z0: "0 < z" unfolding z_def using D deg_less [of 0 "30 - D"] by simp
  have z90: "z < pi / 2" unfolding z_def using D deg_less [of "30 - D" 90] by simp
  have cz: "0 < cos z" using z0 z90 by (intro cos_gt_zero)
  have sz: "0 < sin z" using z0 z90 by (intro sin_gt_zero2)
  define t where "t = sin z / cos z"
  from cz sz have t0: "0 < t" unfolding t_def by simp
  have tz: "t = tan z" unfolding t_def tan_def ..
  have "sin ?lr * sin ?dr + cos ?lr * cos ?dr = cos (?lr - ?dr)" by (simp add: cos_diff)
  also have "\<dots> = cos ((30 - D) * pi / 180)" by (simp only: deg_diff)
  also have "\<dots> = sin ((90 - (30 - D)) * pi / 180)" by (rule cos_deg_co)
  finally have "arcsin (sin ?lr * sin ?dr + cos ?lr * cos ?dr)
      = arcsin (sin ((90 - (30 - D)) * pi / 180))" by (simp only:)
  also have "\<dots> = (90 - (30 - D)) * pi / 180" using D by (intro arcsin_sin_deg) simp_all
  finally have ne: "pi / 2 - arcsin (sin ?lr * sin ?dr + cos ?lr * cos ?dr) = z"
    unfolding z_def by (simp add: field_simps)
  have el: "asrElevation ?lr ?dr = Fin (arctan (1 / (1 + t)))"
    unfolding asrElevation_def Let_def ne js_tan_def
    using cz t0 by (simp add: js_div_def js_plus_def js_recip_def js_atan_def t_def)
  define e where "e = arctan (1 / (1 + t))"
  from t0 have "0 < 1 / (1 + t)" by simp
  then have e0: "0 < e" unfolding e_def by simp
  from t0 have "1 / (1 + t) \<le> 1 / t" by (simp add: field_simps)
  then have "e \<le> arctan (1 / t)" unfolding e_def by (simp only: arctan_le_iff)
  also have "arctan (1 / t) = pi / 2 - arctan t"
    using t0 arctan_inverse [of t] by simp
  also have "arctan t = z" unfolding tz using z0 z90 by (intro arctan_tan) simp_all
  finally have ez: "e \<le> pi / 2 - z" .
  have "sin e \<le> sin (pi / 2 - z)"
    using e0 ez z0 by (intro sin_monotone_2pi_le) simp_all
  then have up: "sin e \<le> cos (?lr - ?dr)" unfolding zd by (simp add: sin_diff)
  have den: "0 < cos ?lr * cos ?dr" using D by (intro den_pos) simp_all
  have "0 < cos ((30 + D) * pi / 180)" using D by (intro cos_deg_pos) simp_all
  moreover have "0 < sin e" using e0 ez z0 by (intro sin_gt_zero2) simp_all
  ultimately have lo: "- cos (?lr + ?dr) \<le> sin e" unfolding deg_sum by linarith
  from hour_angle_defined [OF den up lo] cosHourAngle_Fin [OF pos_nz [OF den], of e] el
  show ?thesis unfolding e_def by blast
qed


section \<open>The side of solar noon\<close>

text \<open>
  Claim C1 says that, where the hour-angle equation has a solution, Fajr is solar noon
  minus the hour angle of 18 degrees, Sunrise is solar noon minus the hour angle of
  0.833 degrees, and Maghrib and Isha are solar noon plus their hour angles. The code
  computes Sunrise, Maghrib and Isha so, but Fajr as solar noon plus the hour angle:
  \<^verbatim>\<open>getIslamicPrayerTimes\<close> calls \<^verbatim>\<open>calculatePrayerTime\<close> for Fajr with
  \<^verbatim>\<open>isSunrise = false\<close>. The theorem states what the code computes, for every
  latitude, longitude and date.
\<close>

theorem computed_hour_angle_sides:
  "(cosHourAngle (lat * pi / 180) (getSolarDeclination (getJulianDate d) * pi / 180)
        (fajrAngle * pi / 180) = Fin vf \<and> \<bar>vf\<bar> \<le> 1
      \<longrightarrow> solarTimes lat lng d ! 0
            = Some (getSolarNoon lng (getEquationOfTime (getJulianDate d)) (timezoneOffsetOf d)
                    + arccos vf * 180 / pi / 15))
   \<and> (cosHourAngle (lat * pi / 180) (getSolarDeclination (getJulianDate d) * pi / 180)
        (maghribAngle * pi / 180) = Fin vs \<and> \<bar>vs\<bar> \<le> 1
      \<longrightarrow> solarTimes lat lng d ! 1
            = Some (getSolarNoon lng (getEquationOfTime (getJulianDate d)) (timezoneOffsetOf d)
                    - arccos vs * 180 / pi / 15)
          \<and> solarTimes lat lng d ! 4
            = Some (getSolarNoon lng (getEquationOfTime (getJulianDate d)) (timezoneOffsetOf d)
                    + arccos vs * 180 / pi / 15))
   \<and> (cosHourAngle (lat * pi / 180) (getSolarDeclination (getJulianDate d) * pi / 180)
        (ishaAngle * pi / 180) = Fin vi \<and> \<bar>vi\<bar> \<le> 1
      \<longrightarrow> solarTimes lat lng d ! 5
            = Some (getSolarNoon lng (getEquationOfTime (getJulianDate d)) (timezoneOffsetOf d)
                    + arccos vi * 180 / pi / 15))"
  unfolding solarTimes_nth by (simp add: calculatePrayerTime_solved)

text \<open>
  At latitude 30, longitude 0, on 1 January 2000 the equation for 18 degrees has a
  solution with an hour angle of at least 6 hours, and the computed Fajr is solar noon
  (the computed Dhuhr) plus this hour angle, not minus.
\<close>

theorem fajr_after_noon_30N:
  "\<exists>v. cosHourAngle (30 * pi / 180) (getSolarDeclination (getJulianDate date_2000_01_01) * pi / 180)
          (fajrAngle * pi / 180) = Fin v
      \<and> \<bar>v\<bar> \<le> 1
      \<and> 6 \<le> arccos v * 180 / pi / 15
      \<and> solarTimes 30 0 date_2000_01_01 ! 0
          = Some (getSolarNoon 0 (getEquationOfTime (getJulianDate date_2000_01_01))
                    (timezoneOffsetOf date_2000_01_01) + arccos v * 180 / pi / 15)
      \<and> solarTimes 30 0 date_2000_01_01 ! 0
          \<noteq> Some (getSolarNoon 0 (getEquationOfTime (getJulianDate date_2000_01_01))
                    (timezoneOffsetOf date_2000_01_01) - arccos v * 180 / pi / 15)
      \<and> solarTimes 30 0 date_2000_01_01 ! 2
          = Some (getSolarNoon 0 (getEquationOfTime (getJulianDate date_2000_01_01))
                    (timezoneOffsetOf date_2000_01_01))"
proof -
  let ?noon = "getSolarNoon 0 (getEquationOfTime (getJulianDate date_2000_01_01))
                 (timezoneOffsetOf date_2000_01_01)"
  from fajr_30N obtain v where
    v: "cosHourAngle (30 * pi / 180) (getSolarDeclination (getJulianDate date_2000_01_01) * pi / 180)
          (fajrAngle * pi / 180) = Fin v"
      "\<bar>v\<bar> \<le> 1" "6 \<le> arccos v * 180 / pi / 15"
    unfolding jd_d0 by auto
  from computed_hour_angle_sides [of 30 date_2000_01_01 v 0] v(1) v(2)
  have t: "solarTimes 30 0 date_2000_01_01 ! 0 = Some (?noon + arccos v * 180 / pi / 15)"
    by blast
  from v(3) have "?noon + arccos v * 180 / pi / 15 \<noteq> ?noon - arccos v * 180 / pi / 15"
    by linarith
  with t have n: "solarTimes 30 0 date_2000_01_01 ! 0 \<noteq> Some (?noon - arccos v * 180 / pi / 15)"
    by simp
  have dh: "solarTimes 30 0 date_2000_01_01 ! 2 = Some ?noon" by (rule solarTimes_nth(3))
  from v t n dh show ?thesis by blast
qed


section \<open>The order of the six moments\<close>

text \<open>
  Claim C3 says that at a non-polar latitude, on a date without fallback, the six
  moments are in non-decreasing order as minutes since midnight. At latitude 30,
  longitude 0, on 1 January 2000 no call takes the fallback branch, Fajr is at minute
  1038 of the day or later and Sunrise at minute 859 or earlier: the list starts with
  a descent. This is the effect of Fajr being computed on the side of sunset.
\<close>

theorem prayer_order_broken_30N:
  "\<not> js_abs_gt (cosHourAngle (30 * pi / 180) (getSolarDeclination (getJulianDate date_2000_01_01) * pi / 180)
                  (fajrAngle * pi / 180)) 1
   \<and> \<not> js_abs_gt (cosHourAngle (30 * pi / 180) (getSolarDeclination (getJulianDate date_2000_01_01) * pi / 180)
                  (maghribAngle * pi / 180)) 1
   \<and> \<not> js_abs_gt (cosHourAngle (30 * pi / 180) (getSolarDeclination (getJulianDate date_2000_01_01) * pi / 180)
                  (ishaAngle * pi / 180)) 1
   \<and> (\<exists>e. asrElevation (30 * pi / 180) (getSolarDeclination (getJulianDate date_2000_01_01) * pi / 180) = Fin e
          \<and> \<not> js_abs_gt (cosHourAngle (30 * pi / 180)
                  (getSolarDeclination (getJulianDate date_2000_01_01) * pi / 180) e) 1)
   \<and> (\<exists>f s. prayerMinutes (getIslamicPrayerTimes 30 0 date_2000_01_01) ! 0 = Some f
          \<and> prayerMinutes (getIslamicPrayerTimes 30 0 date_2000_01_01) ! 1 = Some s
          \<and> 1038 \<le> f \<and> s \<le> 859 \<and> s < f)"
proof -
  from fajr_30N have a: "\<not> js_abs_gt (cosHourAngle (30 * pi / 180)
      (getSolarDeclination (getJulianDate date_2000_01_01) * pi / 180) (fajrAngle * pi / 180)) 1"
    unfolding jd_d0 by (auto simp: js_abs_gt_Fin)
  from sunrise_30N have b: "\<not> js_abs_gt (cosHourAngle (30 * pi / 180)
      (getSolarDeclination (getJulianDate date_2000_01_01) * pi / 180) (maghribAngle * pi / 180)) 1"
    unfolding jd_d0 by (auto simp: js_abs_gt_Fin)
  from isha_30N have c: "\<not> js_abs_gt (cosHourAngle (30 * pi / 180)
      (getSolarDeclination (getJulianDate date_2000_01_01) * pi / 180) (ishaAngle * pi / 180)) 1"
    unfolding jd_d0 by (auto simp: js_abs_gt_Fin)
  from asr_30N [OF declination_d0_range]
  have d: "\<exists>e. asrElevation (30 * pi / 180) (getSolarDeclination (getJulianDate date_2000_01_01) * pi / 180) = Fin e
          \<and> \<not> js_abs_gt (cosHourAngle (30 * pi / 180)
                  (getSolarDeclination (getJulianDate date_2000_01_01) * pi / 180) e) 1"
    unfolding jd_d0 by (auto simp: js_abs_gt_Fin)
  from fajr_minutes_30N sunrise_minutes_30N
  have e: "\<exists>f s. prayerMinutes (getIslamicPrayerTimes 30 0 date_2000_01_01) ! 0 = Some f
          \<and> prayerMinutes (getIslamicPrayerTimes 30 0 date_2000_01_01) ! 1 = Some s
          \<and> 1038 \<le> f \<and> s \<le> 859 \<and> s < f"
    by fastforce
  from a b c d e show ?thesis by (intro conjI)
qed


section \<open>The clock\<close>

text \<open>
  Claim C4, as stated, fails. It says that the instant against which \<open>isNext\<close> and
  \<open>isPassed\<close> are decided is an explicit parameter, so that two calls of
  \<^verbatim>\<open>calculatePrayerTimes\<close> with the same latitude, longitude and date return the same
  list. The function reads the clock itself: the same three arguments give different
  flags at 00:00 and at 23:59.
\<close>

theorem clock_changes_flags:
  "calculatePrayerTimes (date_2000_01_01\<lparr>getHours := 0\<rparr>) 30 0 date_2000_01_01
     \<noteq> calculatePrayerTimes (date_2000_01_01\<lparr>getHours := 23, getMinutes := 59\<rparr>) 30 0 date_2000_01_01"
proof
  let ?ts = "getIslamicPrayerTimes 30 0 date_2000_01_01"
  assume eq: "calculatePrayerTimes (date_2000_01_01\<lparr>getHours := 0\<rparr>) 30 0 date_2000_01_01
     = calculatePrayerTimes (date_2000_01_01\<lparr>getHours := 23, getMinutes := 59\<rparr>) 30 0 date_2000_01_01"
  have c0: "currentMinutesOf (date_2000_01_01\<lparr>getHours := 0\<rparr>) = 0"
    and c1: "currentMinutesOf (date_2000_01_01\<lparr>getHours := 23, getMinutes := 59\<rparr>) = 1439"
    by (simp_all add: currentMinutesOf_def date_2000_01_01_def)
  from eq have "annotate 0 ?ts = annotate 1439 ?ts"
    unfolding calculatePrayerTimes_def Let_def c0 c1 .
  then have "isPassed (annotate 0 ?ts ! 0) = isPassed (annotate 1439 ?ts ! 0)" by simp
  moreover have "0 < length ?ts" by (simp add: length_getIslamicPrayerTimes)
  ultimately have "js_le (prayerMinutes ?ts ! 0) 0 = js_le (prayerMinutes ?ts ! 0) 1439"
    by (simp add: nth_annotate)
  moreover from fajr_minutes_30N obtain f where
    "prayerMinutes ?ts ! 0 = Some f" "1038 \<le> f" "f \<le> 1435" by blast
  ultimately show False by (simp add: js_le_def)
qed

lemma annotate_texts:
  "map (\<lambda>x. (id' x, name x, time x)) (annotate cur ts)
     = map (\<lambda>p. (id' p, name p, formatTime (hour p) (minute p))) ts"
  by (rule nth_equalityI) (simp_all add: length_annotate nth_annotate)

text \<open>
  Claim C4, amended. The list is a function of the three arguments and of the hour and
  the minute that the clock shows during the call: two calls with the same latitude,
  longitude and date return the same list when the clock shows the same hour and
  minute, and in every case the same identifiers, names and formatted times.
\<close>

theorem same_minute_same_list:
  "(getHours now1 = getHours now2 \<and> getMinutes now1 = getMinutes now2
      \<longrightarrow> calculatePrayerTimes now1 lat lng d = calculatePrayerTimes now2 lat lng d)
   \<and> map (\<lambda>x. (id' x, name x, time x)) (calculatePrayerTimes now1 lat lng d)
       = map (\<lambda>x. (id' x, name x, time x)) (calculatePrayerTimes now2 lat lng d)"
  by (simp add: calculatePrayerTimes_def Let_def currentMinutesOf_def annotate_texts)

theorem same_minute_same_list_witness:
  "calculatePrayerTimes date_2000_01_01 30 0 date_2000_01_01
     = calculatePrayerTimes (date_2000_01_01\<lparr>getSeconds := 30\<rparr>) 30 0 date_2000_01_01"
  using same_minute_same_list [of date_2000_01_01 "date_2000_01_01\<lparr>getSeconds := 30\<rparr>" 30 0 date_2000_01_01]
  by simp

end
